theory Spec2Isabelle
  imports Main
begin

section \<open>The shaker plugin: data model\<close>

text \<open>
  A \<open>NodePath\<close> is identified by a number; two paths are the same object exactly when
  their numbers are equal.  A binding of a scope is identified by a number as well.
\<close>

type_synonym node = nat
type_synonym bid = nat

text \<open>What the plugin inspects of the node that sits at a path.\<close>

datatype nodeView =
    Identifier string
  | AssignmentExpression node
  | VariableDeclarator node
  | Named string
  | Other

text \<open>
  Top-level statements of the program body: a statement of the input, the declaration
  \<open>var uid;\<close> and the statement \<open>exports.name = uid;\<close> created by \<open>rearrangeExports\<close>
  (with the path of the statement and, for the assignment, the path of its right-hand side).
\<close>

datatype stmt =
    Original node
  | VarDecl node string
  | AssignExport node string string node

fun stmtPath :: "stmt \<Rightarrow> node" where
  "stmtPath (Original p) = p"
| "stmtPath (VarDecl p uid) = p"
| "stmtPath (AssignExport p name uid r) = p"

text \<open>
  The program: its body, the paths that have been removed, the node at each path, the next
  unused path number, and the scope and binding index \<open>scope\<close>, which belongs to the parser
  layer and is only handed to its operations.
\<close>

record 's program =
  body :: "stmt list"
  removed :: "node list"
  nodes :: "(node \<times> nodeView) list"
  nextPath :: node
  scope :: 's

record importRec =
  imported :: string
  source :: string
  local :: node

record reexportRec =
  exported :: string
  reImported :: string
  reSource :: string
  reLocal :: node

text \<open>The result of \<open>collectExportsAndImports\<close>.\<close>

record collected =
  exports :: "(string \<times> node) list"
  exportRefs :: "(string \<times> node list) list"
  importRecs :: "importRec list"
  reexports :: "reexportRec list"
  isEsModule :: bool

text \<open>An action of \<open>findActionForNode\<close>: its kind and the path \<open>action[1]\<close>.\<close>

type_synonym action = "string \<times> node"

text \<open>
  The operations of the parser layer and of the utilities package that the plugin calls.
  They are parameters of the model: the plugin only decides when they are invoked.
\<close>

record 's ext =
  generateUid :: "'s program \<Rightarrow> string \<Rightarrow> string \<times> 's"
  registerDeclaration :: "node \<Rightarrow> 's program \<Rightarrow> 's"
  registerConstantViolation :: "node \<Rightarrow> 's program \<Rightarrow> 's"
  isBindingIdentifier :: "'s program \<Rightarrow> node \<Rightarrow> bool"
  reference :: "node \<Rightarrow> 's program \<Rightarrow> 's"
  referenceForced :: "node \<Rightarrow> 's program \<Rightarrow> 's"
  dereference :: "node \<Rightarrow> 's program \<Rightarrow> 's"
  getBinding :: "'s program \<Rightarrow> node \<Rightarrow> string \<Rightarrow> bid option"
  referencePaths :: "'s program \<Rightarrow> bid \<Rightarrow> node list"
  findParentDeclarator :: "'s program \<Rightarrow> node \<Rightarrow> node option"
  findActionForNode :: "'s program \<Rightarrow> node \<Rightarrow> action option"
  isAncestor :: "'s program \<Rightarrow> node \<Rightarrow> node \<Rightarrow> bool"
  applyAction :: "action \<Rightarrow> 's program \<Rightarrow> 's program"
  removeWithRelated :: "node list \<Rightarrow> 's program \<Rightarrow> 's program"
  removeDangerousCode :: "'s program \<Rightarrow> 's program"
  dangerousCodeRemover :: bool
  shouldKeepSideEffect :: "string \<Rightarrow> bool"

datatype unknownExportPolicy = PolicyError | PolicyIgnore | ReexportAll | SkipShaking

record options =
  deadImports :: "(string \<times> string) list"
  ifUnknownExport :: "unknownExportPolicy option"
  keepSideEffects :: "bool option"
  onlyExports :: "string list"

datatype error = UnknownExports string

text \<open>What the pass publishes on the plugin state, together with the program it leaves.\<close>

record 's outcome =
  outImports :: "importRec list"
  outExports :: "(string \<times> node) list"
  outReexports :: "reexportRec list"
  deadExports :: "string list"
  outProgram :: "'s program"

section \<open>Helpers\<close>

definition viewOf :: "'s program \<Rightarrow> node \<Rightarrow> nodeView" where
  "viewOf prog p = (case map_of (nodes prog) p of None \<Rightarrow> Other | Some v \<Rightarrow> v)"

definition isIdentifier :: "'s program \<Rightarrow> node \<Rightarrow> bool" where
  "isIdentifier prog p = (case viewOf prog p of Identifier n \<Rightarrow> True | _ \<Rightarrow> False)"

text \<open>\<open>(local.node as NodeWithName).name || ''\<close>\<close>

definition nameOrEmpty :: "'s program \<Rightarrow> node \<Rightarrow> string" where
  "nameOrEmpty prog p =
     (case viewOf prog p of Identifier n \<Rightarrow> n | Named n \<Rightarrow> n | _ \<Rightarrow> [])"

definition isRemoved :: "'s program \<Rightarrow> node \<Rightarrow> bool" where
  "isRemoved prog p = (p \<in> set (removed prog))"

text \<open>\<open>Array.prototype.join\<close>\<close>

fun join :: "string \<Rightarrow> string list \<Rightarrow> string" where
  "join sep [] = []"
| "join sep [x] = x"
| "join sep (x # y # ys) = x @ sep @ join sep (y # ys)"

text \<open>\<open>Set.prototype.add\<close> on a set kept as a duplicate-free list in insertion order.\<close>

definition setAdd :: "'a \<Rightarrow> 'a list \<Rightarrow> 'a list" where
  "setAdd x xs = (if x \<in> set xs then xs else xs @ [x])"

section \<open>JavaScript objects with string keys\<close>

text \<open>
  The objects \<open>exports\<close>, \<open>rearranged\<close> and \<open>this.exports\<close> are kept as the list of their own
  properties in the order of creation.  \<open>Object.keys\<close>, \<open>Object.values\<close>, \<open>Object.entries\<close>
  and the spread \<open>{...obj}\<close> read the own properties with the array indices first, in
  ascending numeric order, then the other keys in the order of creation.  An array index is
  the canonical decimal numeral of a number below \<open>2^32 - 1\<close>.
\<close>

definition digitValue :: "char \<Rightarrow> nat" where
  "digitValue c = of_char c - of_char CHR ''0''"

definition decimal :: "string \<Rightarrow> nat" where
  "decimal s = foldl (\<lambda>n c. 10 * n + digitValue c) 0 s"

definition arrayIndex :: "string \<Rightarrow> nat option" where
  "arrayIndex s =
     (if s \<noteq> [] \<and> list_all (\<lambda>c. c \<in> set ''0123456789'') s
         \<and> (s = ''0'' \<or> hd s \<noteq> CHR ''0'') \<and> decimal s < 4294967295
      then Some (decimal s) else None)"

definition ownOrder :: "('a \<Rightarrow> string) \<Rightarrow> 'a list \<Rightarrow> 'a list" where
  "ownOrder key xs =
     sort_key (\<lambda>x. case arrayIndex (key x) of Some i \<Rightarrow> i | None \<Rightarrow> 0)
       (filter (\<lambda>x. arrayIndex (key x) \<noteq> None) xs)
     @ filter (\<lambda>x. arrayIndex (key x) = None) xs"

definition objEntries :: "(string \<times> 'v) list \<Rightarrow> (string \<times> 'v) list" where
  "objEntries obj = ownOrder fst obj"

definition objKeys :: "(string \<times> 'v) list \<Rightarrow> string list" where
  "objKeys obj = map fst (objEntries obj)"

definition objValues :: "(string \<times> 'v) list \<Rightarrow> 'v list" where
  "objValues obj = map snd (objEntries obj)"

text \<open>
  The assignment \<open>obj[name] = v\<close>: an own property is updated in place and a new one is
  created last, except that the name \<open>__proto__\<close>, when it is not an own property, reaches
  the setter of \<open>Object.prototype\<close>, which changes the prototype and creates no property.
  The plugin reads \<open>exports.__linariaPreval\<close>, \<open>exports.default\<close> and \<open>exports['*']\<close> only; no
  prototype that this setter can install (a node path) has a property of these names, so
  these reads are reads of own properties (\<open>map_of\<close>).
\<close>

fun updateProp :: "string \<Rightarrow> 'v \<Rightarrow> (string \<times> 'v) list \<Rightarrow> (string \<times> 'v) list" where
  "updateProp k v [] = []"
| "updateProp k v ((k', v') # es) =
     (if k = k' then (k, v) # es else (k', v') # updateProp k v es)"

definition assignProp :: "string \<Rightarrow> 'v \<Rightarrow> (string \<times> 'v) list \<Rightarrow> (string \<times> 'v) list" where
  "assignProp k v obj =
     (if k \<in> set (map fst obj) then updateProp k v obj
      else if k = ''__proto__'' then obj
      else obj @ [(k, v)])"

section \<open>getBindingForExport\<close>

definition getBindingForExport :: "'s ext \<Rightarrow> 's program \<Rightarrow> node \<Rightarrow> bid option" where
  "getBindingForExport E prog exportPath =
     (case viewOf prog exportPath of
        Identifier n \<Rightarrow> getBinding E prog exportPath n
      | v \<Rightarrow>
         (let viaDeclarator =
                (case findParentDeclarator E prog exportPath of
                   None \<Rightarrow> None
                 | Some vd \<Rightarrow>
                    (case viewOf prog vd of
                       VariableDeclarator idp \<Rightarrow>
                         (case viewOf prog idp of
                            Identifier n \<Rightarrow> Some (getBinding E prog vd n)
                          | _ \<Rightarrow> None)
                     | _ \<Rightarrow> None))
          in case viaDeclarator of
               Some r \<Rightarrow> r
             | None \<Rightarrow>
                (case v of
                   AssignmentExpression left \<Rightarrow>
                     (case viewOf prog left of
                        Identifier n \<Rightarrow> getBinding E prog exportPath n
                      | _ \<Rightarrow> None)
                 | _ \<Rightarrow> None)))"

definition withoutRemovedImports :: "'s program \<Rightarrow> importRec list \<Rightarrow> importRec list" where
  "withoutRemovedImports prog items = filter (\<lambda>i. \<not> isRemoved prog (local i)) items"

definition withoutRemovedReexports :: "'s program \<Rightarrow> reexportRec list \<Rightarrow> reexportRec list" where
  "withoutRemovedReexports prog items = filter (\<lambda>i. \<not> isRemoved prog (reLocal i)) items"

section \<open>rearrangeExports\<close>

text \<open>
  \<open>ref.replaceWith(t.identifier(uid))\<close> puts the identifier at the path of the reference;
  the path is then registered as a constant violation or as a reference.
\<close>

definition replaceRef :: "'s ext \<Rightarrow> string \<Rightarrow> 's program \<Rightarrow> node \<Rightarrow> 's program" where
  "replaceRef E uid prog ref =
     (let prog1 = prog\<lparr>nodes := (ref, Identifier uid) # nodes prog\<rparr>
      in if isBindingIdentifier E prog1 ref
         then prog1\<lparr>scope := registerConstantViolation E ref prog1\<rparr>
         else prog1\<lparr>scope := reference E ref prog1\<rparr>)"

definition rearrangeOne ::
  "'s ext \<Rightarrow> 's program \<times> (string \<times> node) list \<Rightarrow> string \<times> node list
     \<Rightarrow> 's program \<times> (string \<times> node) list" where
  "rearrangeOne E st entry =
     (case st of (prog, rearranged) \<Rightarrow>
      case entry of (name, refs) \<Rightarrow>
        if length refs \<le> 1 then (prog, rearranged)
        else
          (case generateUid E prog name of (uid, sc) \<Rightarrow>
            let declaration = nextPath prog;
                prog1 = prog\<lparr>body := VarDecl declaration uid # body prog,
                             nextPath := declaration + 1, scope := sc\<rparr>;
                prog2 = prog1\<lparr>scope := registerDeclaration E declaration prog1\<rparr>;
                prog3 = foldl (replaceRef E uid) prog2 refs;
                pushed = nextPath prog3;
                localp = pushed + 1;
                prog4 = prog3\<lparr>body := body prog3 @ [AssignExport pushed name uid localp],
                              nodes := (localp, Identifier uid) # nodes prog3,
                              nextPath := pushed + 2\<rparr>;
                prog5 = prog4\<lparr>scope := reference E localp prog4\<rparr>
            in (prog5, assignProp name localp rearranged)))"

definition rearrangeExports ::
  "'s ext \<Rightarrow> 's program \<Rightarrow> (string \<times> node list) list \<Rightarrow> (string \<times> node) list
     \<Rightarrow> 's program \<times> (string \<times> node) list" where
  "rearrangeExports E root refs exps = foldl (rearrangeOne E) (root, objEntries exps) refs"

section \<open>The liveness engine\<close>

text \<open>Lines 175--184: the left-hand identifier of an exported assignment is marked as a reference.\<close>

definition markAssignmentLeft :: "'s ext \<Rightarrow> 's program \<Rightarrow> node \<Rightarrow> 's program" where
  "markAssignmentLeft E prog localp =
     (case viewOf prog localp of
        AssignmentExpression left \<Rightarrow>
          (if isIdentifier prog left then prog\<lparr>scope := referenceForced E left prog\<rparr> else prog)
      | _ \<Rightarrow> prog)"

text \<open>\<open>programPath.get('body').forEach((p) => p.remove())\<close>\<close>

definition removeStmt :: "'s program \<Rightarrow> node \<Rightarrow> 's program" where
  "removeStmt prog p =
     prog\<lparr>body := filter (\<lambda>s. stmtPath s \<noteq> p) (body prog), removed := p # removed prog\<rparr>"

definition removeBody :: "'s program \<Rightarrow> 's program" where
  "removeBody prog = foldl removeStmt prog (map stmtPath (body prog))"

text \<open>Lines 233--247: one entry of \<open>Object.entries(exports)\<close>.\<close>

definition aliveStep ::
  "'s program \<Rightarrow> string list \<Rightarrow> string list \<Rightarrow> node list \<Rightarrow> string \<times> node \<Rightarrow> node list" where
  "aliveStep prog onlyExportsSet importNames aliveExports entry =
     (case entry of (exportedName, localp) \<Rightarrow>
        if exportedName \<in> set onlyExportsSet then setAdd localp aliveExports
        else if nameOrEmpty prog localp \<in> set importNames then setAdd localp aliveExports
        else if list_ex (\<lambda>alive. alive = localp) aliveExports then setAdd localp aliveExports
        else aliveExports)"

text \<open>Lines 249--253.\<close>

definition aliveReexport :: "string list \<Rightarrow> node list \<Rightarrow> reexportRec \<Rightarrow> node list" where
  "aliveReexport onlyExportsSet aliveExports exp =
     (if exported exp \<in> set onlyExportsSet then setAdd (reLocal exp) aliveExports
      else aliveExports)"

definition computeAlive ::
  "'s program \<Rightarrow> string list \<Rightarrow> collected \<Rightarrow> (string \<times> node) list \<Rightarrow> node list" where
  "computeAlive prog onlyExportsSet col exps =
     foldl (aliveReexport onlyExportsSet)
       (foldl (aliveStep prog onlyExportsSet (map imported (importRecs col))) []
          (objEntries exps))
       (reexports col)"

text \<open>Lines 263--274: the policy \<open>reexport-all\<close>.\<close>

definition keepWildcards :: "collected \<Rightarrow> (string \<times> node) list \<Rightarrow> node list \<Rightarrow> node list" where
  "keepWildcards col exps aliveExports =
     foldl (\<lambda>al exp. if exported exp = ''*'' then setAdd (reLocal exp) al else al)
       (case map_of exps ''*'' of None \<Rightarrow> aliveExports | Some w \<Rightarrow> setAdd w aliveExports)
       (reexports col)"

text \<open>Lines 305--327: one import against the list of dead imports.\<close>

definition deadImportPaths ::
  "'s ext \<Rightarrow> 's program \<Rightarrow> (string \<times> string) list \<Rightarrow> importRec \<Rightarrow> node list" where
  "deadImportPaths E prog dead i =
     (if imported i = ''side-effect'' then []
      else if list_ex (\<lambda>d. imported i = fst d \<and> source i = snd d) dead then
        (case getBindingForExport E prog (local i) of
           None \<Rightarrow> [local i]
         | Some b \<Rightarrow> referencePaths E prog b)
      else [])"

text \<open>Lines 291--294: the exports and re-exports that are not alive.\<close>

definition deadExportPaths :: "collected \<Rightarrow> (string \<times> node) list \<Rightarrow> node list \<Rightarrow> node list" where
  "deadExportPaths col exps aliveExports =
     filter (\<lambda>exp. exp \<notin> set aliveExports) (objValues exps @ map reLocal (reexports col))"

text \<open>Lines 296--303: the imports for their side effects that need not be kept.\<close>

definition sideEffectPaths :: "'s ext \<Rightarrow> options \<Rightarrow> bool \<Rightarrow> collected \<Rightarrow> node list" where
  "sideEffectPaths E opts importedAsSideEffect col =
     (if \<not> (case keepSideEffects opts of None \<Rightarrow> False | Some k \<Rightarrow> k) \<and> \<not> importedAsSideEffect
      then map local
             (filter (\<lambda>i. \<not> shouldKeepSideEffect E (source i))
                (filter (\<lambda>i. imported i = ''side-effect'') (importRecs col)))
      else [])"

text \<open>Lines 305--327: the paths that the dead imports bring.\<close>

definition deadImportsPaths :: "'s ext \<Rightarrow> 's program \<Rightarrow> options \<Rightarrow> collected \<Rightarrow> node list" where
  "deadImportsPaths E prog opts col =
     (if length (deadImports opts) > 0
      then concat (map (deadImportPaths E prog (deadImports opts)) (importRecs col))
      else [])"

text \<open>Lines 291--327: the worklist.\<close>

definition buildForDeleting ::
  "'s ext \<Rightarrow> 's program \<Rightarrow> options \<Rightarrow> bool \<Rightarrow> collected \<Rightarrow> (string \<times> node) list
     \<Rightarrow> node list \<Rightarrow> node list" where
  "buildForDeleting E prog opts importedAsSideEffect col exps aliveExports =
     deadExportPaths col exps aliveExports
     @ sideEffectPaths E opts importedAsSideEffect col
     @ deadImportsPaths E prog opts col"

section \<open>The fixed-point eliminator\<close>

text \<open>The variables of the loop of lines 329--363, with the program they act on.\<close>

record 's elim =
  prog :: "'s program"
  deleted :: "node list"
  dereferenced :: "node list"
  changed :: bool

text \<open>
  \<open>(binding?.referencePaths || []).filter((ref) => ref !== parent && !parent?.isAncestor(ref))\<close>;
  without an action \<open>parent\<close> is undefined and every reference is an outer one.
\<close>

definition outerReferences :: "'s ext \<Rightarrow> 's program \<Rightarrow> node \<Rightarrow> node list" where
  "outerReferences E pr path =
     filter
       (\<lambda>ref. case findActionForNode E pr path of
                 None \<Rightarrow> True
               | Some a \<Rightarrow> ref \<noteq> snd a \<and> \<not> isAncestor E pr (snd a) ref)
       (case getBindingForExport E pr path of None \<Rightarrow> [] | Some b \<Rightarrow> referencePaths E pr b)"

text \<open>
  Lines 353--357: the action that was found for the path is applied, or the path is removed
  with what relates to it.
\<close>

definition deleteWith :: "'s ext \<Rightarrow> action option \<Rightarrow> node \<Rightarrow> 's program \<Rightarrow> 's program" where
  "deleteWith E action path q =
     (case action of
        Some a \<Rightarrow> applyAction E a q
      | None \<Rightarrow> removeWithRelated E [path] q)"

text \<open>The body of the \<open>for\<close> loop, lines 337--361.\<close>

definition elimStep :: "'s ext \<Rightarrow> 's elim \<Rightarrow> node \<Rightarrow> 's elim" where
  "elimStep E st path =
     (let pr = prog st;
          binding = getBindingForExport E pr path;
          action = findActionForNode E pr path;
          outer = outerReferences E pr path;
          st1 = (if length outer > 0 \<and> isIdentifier pr path
                 then st\<lparr>prog := pr\<lparr>scope := dereference E path pr\<rparr>,
                         dereferenced := dereferenced st @ [path]\<rparr>
                 else st)
      in if path \<notin> set (deleted st1) \<and> (binding = None \<or> length outer = 0)
         then st1\<lparr>prog := deleteWith E action path (prog st1),
                  deleted := setAdd path (deleted st1),
                  changed := True\<rparr>
         else st1)"

text \<open>One execution of the body of the \<open>while\<close> loop.\<close>

definition elimPass :: "'s ext \<Rightarrow> node list \<Rightarrow> 's elim \<Rightarrow> 's elim" where
  "elimPass E forDeleting st = foldl (elimStep E) (st\<lparr>changed := False\<rparr>) forDeleting"

text \<open>A pass never forgets a deleted path, and it sets \<open>changed\<close> only by adding one.\<close>

lemma elimStep_deleted_cases:
  "deleted (elimStep E st p) = deleted st \<and> changed (elimStep E st p) = changed st
   \<or> (p \<notin> set (deleted st) \<and> deleted (elimStep E st p) = deleted st @ [p]
        \<and> changed (elimStep E st p))"
  by (simp add: elimStep_def Let_def setAdd_def)

lemma foldl_elimStep_mono:
  "length (deleted st) \<le> length (deleted (foldl (elimStep E) st xs))"
proof (induction xs arbitrary: st)
  case Nil
  show ?case by simp
next
  case (Cons x xs)
  have "length (deleted st) \<le> length (deleted (elimStep E st x))"
    using elimStep_deleted_cases [of E st x] by auto
  also have "\<dots> \<le> length (deleted (foldl (elimStep E) (elimStep E st x) xs))"
    by (rule Cons.IH)
  finally show ?case by simp
qed

lemma foldl_elimStep_progress:
  "changed (foldl (elimStep E) st xs) \<Longrightarrow> \<not> changed st
     \<Longrightarrow> length (deleted st) < length (deleted (foldl (elimStep E) st xs))"
proof (induction xs arbitrary: st)
  case Nil
  then show ?case by simp
next
  case (Cons x xs)
  show ?case
  proof (cases "changed (elimStep E st x)")
    case True
    then have "length (deleted st) < length (deleted (elimStep E st x))"
      using elimStep_deleted_cases [of E st x] Cons.prems(2) by auto
    also have "\<dots> \<le> length (deleted (foldl (elimStep E) (elimStep E st x) xs))"
      by (rule foldl_elimStep_mono)
    finally show ?thesis by simp
  next
    case False
    then have eq: "deleted (elimStep E st x) = deleted st"
      using elimStep_deleted_cases [of E st x] by auto
    have "length (deleted (elimStep E st x))
            < length (deleted (foldl (elimStep E) (elimStep E st x) xs))"
      using Cons.IH [OF _ False] Cons.prems(1) by simp
    then show ?thesis by (simp add: eq)
  qed
qed

lemma elimPass_mono: "length (deleted st) \<le> length (deleted (elimPass E fd st))"
  using foldl_elimStep_mono [of "st\<lparr>changed := False\<rparr>" E fd] by (simp add: elimPass_def)

lemma elimPass_progress:
  "changed (elimPass E fd st) \<Longrightarrow> length (deleted st) < length (deleted (elimPass E fd st))"
  using foldl_elimStep_progress [of E "st\<lparr>changed := False\<rparr>" fd] by (simp add: elimPass_def)

text \<open>Lines 332--363: the \<open>while\<close> loop.\<close>

function elimLoop :: "'s ext \<Rightarrow> node list \<Rightarrow> 's elim \<Rightarrow> 's elim" where
  "elimLoop E forDeleting st =
     (if changed st \<and> length (deleted st) < length forDeleting
      then elimLoop E forDeleting (elimPass E forDeleting st)
      else st)"
  by pat_completeness auto
termination
proof (relation "measure (\<lambda>(E, fd, st).
          2 * (length fd - length (deleted st)) + (if changed st then 1 else 0))")
  show "wf (measure (\<lambda>(E :: 's ext, fd :: node list, st :: 's elim).
          2 * (length fd - length (deleted st)) + (if changed st then 1 else 0)))"
    by simp
next
  fix E :: "'s ext" and forDeleting :: "node list" and st :: "'s elim"
  assume a: "changed st \<and> length (deleted st) < length forDeleting"
  show "((E, forDeleting, elimPass E forDeleting st), (E, forDeleting, st))
          \<in> measure (\<lambda>(E, fd, st).
              2 * (length fd - length (deleted st)) + (if changed st then 1 else 0))"
  proof (cases "changed (elimPass E forDeleting st)")
    case True
    from elimPass_progress [OF True] a show ?thesis by auto
  next
    case False
    from elimPass_mono [of st E forDeleting] a False show ?thesis by auto
  qed
qed

text \<open>The number of times the body of the \<open>while\<close> loop is executed.\<close>

function passCount :: "'s ext \<Rightarrow> node list \<Rightarrow> 's elim \<Rightarrow> nat" where
  "passCount E forDeleting st =
     (if changed st \<and> length (deleted st) < length forDeleting
      then Suc (passCount E forDeleting (elimPass E forDeleting st))
      else 0)"
  by pat_completeness auto
termination
proof (relation "measure (\<lambda>(E, fd, st).
          2 * (length fd - length (deleted st)) + (if changed st then 1 else 0))")
  show "wf (measure (\<lambda>(E :: 's ext, fd :: node list, st :: 's elim).
          2 * (length fd - length (deleted st)) + (if changed st then 1 else 0)))"
    by simp
next
  fix E :: "'s ext" and forDeleting :: "node list" and st :: "'s elim"
  assume a: "changed st \<and> length (deleted st) < length forDeleting"
  show "((E, forDeleting, elimPass E forDeleting st), (E, forDeleting, st))
          \<in> measure (\<lambda>(E, fd, st).
              2 * (length fd - length (deleted st)) + (if changed st then 1 else 0))"
  proof (cases "changed (elimPass E forDeleting st)")
    case True
    from elimPass_progress [OF True] a show ?thesis by auto
  next
    case False
    from elimPass_mono [of st E forDeleting] a False show ?thesis by auto
  qed
qed


declare elimLoop.simps [simp del] passCount.simps [simp del]


text \<open>Lines 365--370: the severed edges of the paths that are still there are put back.\<close>

definition restoreStep :: "'s ext \<Rightarrow> 's program \<Rightarrow> node \<Rightarrow> 's program" where
  "restoreStep E pr path =
     (if \<not> isRemoved pr path then pr\<lparr>scope := reference E path pr\<rparr> else pr)"

definition restoreDereferenced :: "'s ext \<Rightarrow> 's program \<Rightarrow> node list \<Rightarrow> 's program" where
  "restoreDereferenced E pr paths = foldl (restoreStep E) pr paths"

text \<open>The paths on which lines 365--370 call \<open>reference\<close>, in the order of the calls.\<close>

definition restoredPaths :: "'s program \<Rightarrow> node list \<Rightarrow> node list" where
  "restoredPaths pr paths = filter (\<lambda>path. \<not> isRemoved pr path) paths"

section \<open>The result reporter\<close>

text \<open>Lines 376--382: one entry of \<open>Object.entries(exports)\<close>.\<close>

definition reportStep ::
  "'s program \<Rightarrow> (string \<times> node) list \<times> string list \<Rightarrow> string \<times> node
     \<Rightarrow> (string \<times> node) list \<times> string list" where
  "reportStep pr acc entry =
     (case acc of (exps, dead) \<Rightarrow>
      case entry of (exportedName, localp) \<Rightarrow>
        if isRemoved pr localp then (exps, dead @ [exportedName])
        else (assignProp exportedName localp exps, dead))"

text \<open>Lines 373--384.\<close>

definition report :: "'s program \<Rightarrow> collected \<Rightarrow> (string \<times> node) list \<Rightarrow> 's outcome" where
  "report pr col exps =
     (case foldl (reportStep pr) ([], []) (objEntries exps) of (alive, dead) \<Rightarrow>
        \<lparr>outImports = withoutRemovedImports pr (importRecs col),
         outExports = alive,
         outReexports = withoutRemovedReexports pr (reexports col),
         deadExports = dead,
         outProgram = pr\<rparr>)"

text \<open>The abort paths publish everything that was collected and leave the program as it is.\<close>

definition keepEverything :: "'s program \<Rightarrow> collected \<Rightarrow> (string \<times> node) list \<Rightarrow> 's outcome" where
  "keepEverything pr col exps =
     \<lparr>outImports = importRecs col, outExports = exps, outReexports = reexports col,
      deadExports = [], outProgram = pr\<rparr>"

section \<open>The plugin\<close>

text \<open>Lines 168--184: the exports are rearranged, then exported assignments are marked.\<close>

definition normalizeExports ::
  "'s ext \<Rightarrow> 's program \<Rightarrow> collected \<Rightarrow> 's program \<times> (string \<times> node) list" where
  "normalizeExports E root col =
     (case rearrangeExports E root (exportRefs col) (exports col) of (pr, exps) \<Rightarrow>
        (foldl (markAssignmentLeft E) pr (objValues (exports col)), exps))"

text \<open>
  Lines 153 and 186--192: \<open>onlyExportsSet\<close>, a set kept as a duplicate-free list, without
  \<open>__linariaPreval\<close> when the module does not export it.
\<close>

definition requestedSet :: "(string \<times> node) list \<Rightarrow> string list \<Rightarrow> string list" where
  "requestedSet exps only =
     (if ''__linariaPreval'' \<in> set (remdups only) \<and> map_of exps ''__linariaPreval'' = None
      then removeAll ''__linariaPreval'' (remdups only)
      else remdups only)"

definition policyOf :: "options \<Rightarrow> unknownExportPolicy" where
  "policyOf opts = (case ifUnknownExport opts of None \<Rightarrow> SkipShaking | Some p \<Rightarrow> p)"

text \<open>Line 255, for the set of line 209 (without \<open>side-effect\<close>).\<close>

definition isAllExportsFound ::
  "'s program \<Rightarrow> string list \<Rightarrow> collected \<Rightarrow> (string \<times> node) list \<Rightarrow> bool" where
  "isAllExportsFound pr onlyExportsSet col exps =
     (length (computeAlive pr onlyExportsSet col exps) = length onlyExportsSet)"

text \<open>Lines 228--274, when the pass goes on: the alive set that the worklist is built from.\<close>

definition aliveExportsOf ::
  "'s program \<Rightarrow> options \<Rightarrow> collected \<Rightarrow> (string \<times> node) list \<Rightarrow> string list \<Rightarrow> node list" where
  "aliveExportsOf pr opts col exps onlyExportsSet =
     (if \<not> isAllExportsFound pr onlyExportsSet col exps \<and> policyOf opts = ReexportAll
      then keepWildcards col exps (computeAlive pr onlyExportsSet col exps)
      else computeAlive pr onlyExportsSet col exps)"

text \<open>Lines 286--289.\<close>

definition stripDangerous :: "'s ext \<Rightarrow> 's program \<Rightarrow> 's program" where
  "stripDangerous E pr = (if dangerousCodeRemover E then removeDangerousCode E pr else pr)"

text \<open>Lines 291--327: \<open>forDeleting\<close>, for the set of line 194 (with \<open>side-effect\<close>).\<close>

definition worklist ::
  "'s ext \<Rightarrow> options \<Rightarrow> collected \<Rightarrow> 's program \<Rightarrow> (string \<times> node) list \<Rightarrow> string list
     \<Rightarrow> node list" where
  "worklist E opts col pr exps onlyExportsSet0 =
     buildForDeleting E (stripDangerous E pr) opts (''side-effect'' \<in> set onlyExportsSet0) col exps
       (aliveExportsOf pr opts col exps (removeAll ''side-effect'' onlyExportsSet0))"

text \<open>Lines 329--332: the variables of the loop at its entry.\<close>

definition startState :: "'s program \<Rightarrow> 's elim" where
  "startState pr = \<lparr>prog = pr, deleted = [], dereferenced = [], changed = True\<rparr>"

text \<open>Lines 329--363: the loop is run; its variables at the exit.\<close>

definition eliminated :: "'s ext \<Rightarrow> node list \<Rightarrow> 's program \<Rightarrow> 's elim" where
  "eliminated E forDeleting pr = elimLoop E forDeleting (startState pr)"

text \<open>Lines 329--370: then the severed edges are restored.\<close>

definition eliminate :: "'s ext \<Rightarrow> node list \<Rightarrow> 's program \<Rightarrow> 's program" where
  "eliminate E forDeleting pr =
     (let st = eliminated E forDeleting pr
      in restoreDereferenced E (prog st) (dereferenced st))"

text \<open>Lines 215--219: a requested \<open>default\<close> export of a module that is not an ES module.\<close>

definition interopHazard :: "(string \<times> node) list \<Rightarrow> collected \<Rightarrow> string list \<Rightarrow> bool" where
  "interopHazard exps col onlyExportsSet =
     (''default'' \<in> set onlyExportsSet \<and> map_of exps ''default'' \<noteq> None \<and> \<not> isEsModule col)"

text \<open>Lines 208--384, entered with a non-empty \<open>onlyExportsSet\<close>.\<close>

definition shake ::
  "'s ext \<Rightarrow> options \<Rightarrow> collected \<Rightarrow> 's program \<Rightarrow> (string \<times> node) list \<Rightarrow> string list
     \<Rightarrow> error + 's outcome" where
  "shake E opts col pr exps onlyExportsSet0 =
     (let onlyExportsSet = removeAll ''side-effect'' onlyExportsSet0
      in if interopHazard exps col onlyExportsSet
         then Inr (keepEverything pr col exps)
         else if ''*'' \<notin> set onlyExportsSet then
           (let found = isAllExportsFound pr onlyExportsSet col exps
            in if \<not> found \<and> policyOf opts = PolicyError then
                 Inl (UnknownExports
                        (''Unknown export(s) requested: '' @ join '','' (onlyExports opts)))
               else if \<not> found \<and> policyOf opts = SkipShaking then
                 Inr (keepEverything pr col exps)
               else
                 Inr (report
                        (eliminate E (worklist E opts col pr exps onlyExportsSet0)
                           (stripDangerous E pr))
                        col exps))
         else Inr (report pr col exps))"

text \<open>The visitor \<open>Program.enter\<close>, lines 142--385.\<close>

definition shakerPlugin ::
  "'s ext \<Rightarrow> options \<Rightarrow> 's program \<Rightarrow> collected \<Rightarrow> error + 's outcome" where
  "shakerPlugin E opts root col =
     (case normalizeExports E root col of (pr, exps) \<Rightarrow>
        if length (requestedSet exps (onlyExports opts)) = 0 then
          Inr \<lparr>outImports = [], outExports = [], outReexports = [],
               deadExports = objKeys exps, outProgram = removeBody pr\<rparr>
        else shake E opts col pr exps (requestedSet exps (onlyExports opts)))"

section \<open>Names in use\<close>

text \<open>
  The names that a program holds: those that the declarations made by \<open>rearrangeExports\<close>
  declare and those of the identifiers that sit or have sat at a path.  A generator of
  identifiers is collision-free when what it returns is none of them.
\<close>

fun declaredNames :: "stmt list \<Rightarrow> string list" where
  "declaredNames [] = []"
| "declaredNames (VarDecl p uid # ss) = uid # declaredNames ss"
| "declaredNames (s # ss) = declaredNames ss"

definition identifierNames :: "'s program \<Rightarrow> string list" where
  "identifierNames pr =
     concat (map (\<lambda>e. case snd e of Identifier n \<Rightarrow> [n] | _ \<Rightarrow> []) (nodes pr))"

definition namesIn :: "'s program \<Rightarrow> string set" where
  "namesIn pr = set (declaredNames (body pr)) \<union> set (identifierNames pr)"

definition generatesFresh :: "'s ext \<Rightarrow> bool" where
  "generatesFresh E = (\<forall>pr name. fst (generateUid E pr name) \<notin> namesIn pr)"

section \<open>A plain reference graph\<close>

text \<open>
  Modelled from the spec: the operations of the Reference Graph Accessor and the deletion
  primitives are not part of the plugin (``required, not implemented here'').  The instance
  below is the plainest one that fits the spec's description: one scope, a binding per
  declared name with its list of reference sites, edges added and removed by the name of the
  identifier, a collision-free name made longer than every name in use by underscores in
  front, and a deletion that marks the target and what the given tables place below it as
  removed and drops their edges.  It serves to run the plugin on explicit modules.
\<close>

type_synonym graph = "(string \<times> node list) list"

definition usedNames :: "graph program \<Rightarrow> string list" where
  "usedNames pr = map fst (scope pr) @ declaredNames (body pr) @ identifierNames pr"

definition longest :: "string list \<Rightarrow> nat" where
  "longest xs = foldr (\<lambda>x m. max (length x) m) xs 0"

definition freshName :: "string list \<Rightarrow> string \<Rightarrow> string" where
  "freshName used name = replicate (Suc (longest used)) CHR ''_'' @ name"

fun indexOf :: "string \<Rightarrow> (string \<times> node list) list \<Rightarrow> nat option" where
  "indexOf n [] = None"
| "indexOf n (b # bs) = (if fst b = n then Some 0 else map_option Suc (indexOf n bs))"

fun declaredName :: "stmt list \<Rightarrow> node \<Rightarrow> string option" where
  "declaredName [] d = None"
| "declaredName (VarDecl p uid # ss) d = (if p = d then Some uid else declaredName ss d)"
| "declaredName (s # ss) d = declaredName ss d"

definition mapEdges :: "(node list \<Rightarrow> node list) \<Rightarrow> graph program \<Rightarrow> node \<Rightarrow> graph" where
  "mapEdges f pr p =
     (case viewOf pr p of
        Identifier n \<Rightarrow>
          (case indexOf n (scope pr) of
             Some i \<Rightarrow> (scope pr)[i := (n, f (snd (scope pr ! i)))]
           | None \<Rightarrow> scope pr)
      | _ \<Rightarrow> scope pr)"

definition addEdge :: "graph program \<Rightarrow> node \<Rightarrow> graph" where
  "addEdge pr p = mapEdges (setAdd p) pr p"

definition dropEdge :: "graph program \<Rightarrow> node \<Rightarrow> graph" where
  "dropEdge pr p = mapEdges (removeAll p) pr p"

definition removePaths :: "node list \<Rightarrow> graph program \<Rightarrow> graph program" where
  "removePaths ps pr =
     pr\<lparr>body := filter (\<lambda>s. stmtPath s \<notin> set ps) (body pr),
        removed := removed pr @ ps,
        scope := map (\<lambda>b. (fst b, filter (\<lambda>r. r \<notin> set ps) (snd b))) (scope pr)\<rparr>"

definition below :: "(node \<times> node) list \<Rightarrow> node \<Rightarrow> node list" where
  "below ancestry p = p # map snd (filter (\<lambda>e. fst e = p) ancestry)"

definition plainExt ::
  "(node \<times> node) list \<Rightarrow> (node \<times> action) list \<Rightarrow> (node \<times> node) list \<Rightarrow> node list
     \<Rightarrow> graph ext" where
  "plainExt declarators actions ancestry bindingIds =
     \<lparr>generateUid = (\<lambda>pr name. (freshName (usedNames pr) name, scope pr)),
      registerDeclaration = (\<lambda>d pr.
        case declaredName (body pr) d of None \<Rightarrow> scope pr | Some uid \<Rightarrow> scope pr @ [(uid, [])]),
      registerConstantViolation = (\<lambda>p pr. scope pr),
      isBindingIdentifier = (\<lambda>pr p. p \<in> set bindingIds),
      reference = (\<lambda>p pr. addEdge pr p),
      referenceForced = (\<lambda>p pr. addEdge pr p),
      dereference = (\<lambda>p pr. dropEdge pr p),
      getBinding = (\<lambda>pr p n. indexOf n (scope pr)),
      referencePaths = (\<lambda>pr b. if b < length (scope pr) then snd (scope pr ! b) else []),
      findParentDeclarator = (\<lambda>pr p. map_of declarators p),
      findActionForNode = (\<lambda>pr p. map_of actions p),
      isAncestor = (\<lambda>pr a d. (a, d) \<in> set ancestry),
      applyAction = (\<lambda>a pr. removePaths (below ancestry (snd a)) pr),
      removeWithRelated = (\<lambda>ps pr. removePaths (concat (map (below ancestry) ps)) pr),
      removeDangerousCode = (\<lambda>pr. pr),
      dangerousCodeRemover = False,
      shouldKeepSideEffect = (\<lambda>s. False)\<rparr>"

section \<open>Notions used in the statements\<close>

text \<open>
  The own keys of the export map after \<open>rearrangeExports\<close>, in the order of creation: those of
  the collected map as \<open>Object.keys\<close> gives them, followed by every name with more than one
  internal reference that is not among them and is not \<open>__proto__\<close>.
\<close>

definition rearrangedNames :: "string list \<Rightarrow> (string \<times> node list) list \<Rightarrow> string list" where
  "rearrangedNames names refs =
     foldl (\<lambda>ks entry. if length (snd entry) \<le> 1 \<or> fst entry = ''__proto__'' then ks
                        else setAdd (fst entry) ks) names refs"

fun isVarDecl :: "stmt \<Rightarrow> bool" where
  "isVarDecl (VarDecl p uid) = True"
| "isVarDecl s = False"

fun isAssignExport :: "stmt \<Rightarrow> bool" where
  "isAssignExport (AssignExport p name uid r) = True"
| "isAssignExport s = False"

fun assignedName :: "stmt \<Rightarrow> string" where
  "assignedName (AssignExport p name uid r) = name"
| "assignedName s = []"

text \<open>The entries of \<open>exportRefs\<close> with more than one internal reference site.\<close>

definition multiply :: "(string \<times> node list) list \<Rightarrow> (string \<times> node list) list" where
  "multiply refs = filter (\<lambda>e. 1 < length (snd e)) refs"

text \<open>
  What the normalizer has made of the program \<open>root\<close> and the export map \<open>ex0\<close> for the
  multiply referenced entries \<open>M\<close>: the declarations \<open>D\<close> in front of the body and the
  assignments \<open>A\<close> behind it, one of each for every entry (the assignments in the order of
  the entries), the declared names pairwise distinct and none of them a name of \<open>root\<close>, nothing removed, for every entry its identifier
  at each of its reference sites and at the right-hand side of its assignment, the export
  entry pointing there, and everything else as it was.
\<close>

definition normalizes ::
  "'s program \<Rightarrow> (string \<times> node) list \<Rightarrow> (string \<times> node list) list
     \<Rightarrow> 's program \<Rightarrow> (string \<times> node) list \<Rightarrow> stmt list \<Rightarrow> stmt list \<Rightarrow> bool" where
  "normalizes root ex0 M pr ex D A =
     (body pr = D @ body root @ A
      \<and> list_all isVarDecl D \<and> list_all isAssignExport A
      \<and> length D = length M \<and> map assignedName A = map fst M
      \<and> distinct (declaredNames D) \<and> set (declaredNames D) \<inter> namesIn root = {}
      \<and> removed pr = removed root
      \<and> nextPath pr = nextPath root + 3 * length M
      \<and> namesIn root \<subseteq> namesIn pr
      \<and> fst ` set ex0 \<subseteq> fst ` set ex
      \<and> (\<forall>e\<in>set M. \<exists>uid d s l.
            VarDecl d uid \<in> set D \<and> AssignExport s (fst e) uid l \<in> set A
            \<and> nextPath root \<le> l \<and> l < nextPath pr
            \<and> (\<forall>r\<in>set (snd e). map_of (nodes pr) r = Some (Identifier uid))
            \<and> map_of (nodes pr) l = Some (Identifier uid)
            \<and> (fst e \<in> fst ` set ex0 \<or> fst e \<noteq> ''__proto__'' \<longrightarrow> map_of ex (fst e) = Some l))
      \<and> (\<forall>k. k \<notin> fst ` set M \<longrightarrow> map_of ex k = map_of ex0 k)
      \<and> (\<forall>p. p < nextPath root \<and> p \<notin> \<Union> (set ` snd ` set M)
            \<longrightarrow> map_of (nodes pr) p = map_of (nodes root) p))"

section \<open>Explicit modules\<close>

text \<open>A module without statements.\<close>

definition emptyProgram :: "graph program" where
  "emptyProgram = \<lparr>body = [], removed = [], nodes = [], nextPath = 100, scope = []\<rparr>"

text \<open>A program of one statement.\<close>

definition oneStatement :: "graph program" where
  "oneStatement = emptyProgram\<lparr>body := [Original 1]\<rparr>"

text \<open>The options of a request with every default, and the same with a policy.\<close>

definition request :: "string list \<Rightarrow> options" where
  "request names =
     \<lparr>deadImports = [], ifUnknownExport = None, keepSideEffects = None, onlyExports = names\<rparr>"

definition withPolicy :: "unknownExportPolicy \<Rightarrow> options \<Rightarrow> options" where
  "withPolicy p opts = opts\<lparr>ifUnknownExport := Some p\<rparr>"

text \<open>\<open>Object.keys\<close> of an object whose own keys were created in the order \<open>ks\<close>.\<close>

definition keyOrder :: "string list \<Rightarrow> string list" where
  "keyOrder ks = ownOrder (\<lambda>k. k) ks"

text \<open>A module that reads \<open>exports.foo\<close> twice and assigns no export.\<close>

definition readTwice :: collected where
  "readTwice = \<lparr>exports = [], exportRefs = [(''foo'', [10, 11])], importRecs = [],
                 reexports = [], isEsModule = True\<rparr>"

text \<open>A module with the single export \<open>a\<close>.\<close>

definition onlyA :: collected where
  "onlyA = \<lparr>exports = [(''a'', 5)], exportRefs = [], importRecs = [], reexports = [],
             isEsModule = True\<rparr>"

text \<open>A module that reads \<open>exports.__linariaPreval\<close> twice and assigns no export.\<close>

definition prevalReadTwice :: collected where
  "prevalReadTwice = \<lparr>exports = [], exportRefs = [(''__linariaPreval'', [10, 11])],
                       importRecs = [], reexports = [], isEsModule = True\<rparr>"

text \<open>A module with a \<open>default\<close> export that is not marked as an ES module.\<close>

definition plainDefault :: collected where
  "plainDefault = \<lparr>exports = [(''default'', 5), (''helper'', 6)], exportRefs = [],
                    importRecs = [\<lparr>imported = ''side-effect'', source = ''./polyfill'', local = 7\<rparr>],
                    reexports = [], isEsModule = False\<rparr>"

text \<open>\<open>onlyExportsSet\<close> as of line 209, without the marker \<open>side-effect\<close>.\<close>

definition requestedNames :: "'s ext \<Rightarrow> options \<Rightarrow> 's program \<Rightarrow> collected \<Rightarrow> string list" where
  "requestedNames E opts root col =
     removeAll ''side-effect''
       (requestedSet (snd (normalizeExports E root col)) (onlyExports opts))"

text \<open>The pass takes one of the two returns that keep everything (lines 215--225, 276--283).\<close>

definition abortsShaking :: "'s ext \<Rightarrow> options \<Rightarrow> 's program \<Rightarrow> collected \<Rightarrow> bool" where
  "abortsShaking E opts root col =
     (requestedSet (snd (normalizeExports E root col)) (onlyExports opts) \<noteq> []
      \<and> (interopHazard (snd (normalizeExports E root col)) col (requestedNames E opts root col)
         \<or> (''*'' \<notin> set (requestedNames E opts root col)
            \<and> \<not> isAllExportsFound (fst (normalizeExports E root col))
                   (requestedNames E opts root col) col (snd (normalizeExports E root col))
            \<and> policyOf opts = SkipShaking)))"

text \<open>
  A module that is not marked as an ES module, with a \<open>default\<close> export and two internal
  reference sites of \<open>exports.default\<close>.
\<close>

definition defaultReadTwice :: collected where
  "defaultReadTwice = \<lparr>exports = [(''default'', 5)], exportRefs = [(''default'', [10, 11])],
                        importRecs = [], reexports = [], isEsModule = False\<rparr>"

text \<open>The names under which a module exposes a node, exports first, then re-exports.\<close>

definition nameEntries :: "(string \<times> node) list \<Rightarrow> collected \<Rightarrow> (string \<times> node) list" where
  "nameEntries exps col = exps @ map (\<lambda>e. (exported e, reLocal e)) (reexports col)"

text \<open>
  The requested names of line 209 that are neither the name of an export nor the exported
  name of a re-export.
\<close>

definition unmatchedNames :: "'s ext \<Rightarrow> options \<Rightarrow> 's program \<Rightarrow> collected \<Rightarrow> string list" where
  "unmatchedNames E opts root col =
     filter (\<lambda>k. k \<notin> set (map fst (nameEntries (snd (normalizeExports E root col)) col)))
       (requestedNames E opts root col)"

text \<open>
  Line 255 compares the number of alive nodes with the number of requested names.  On a
  module and a request where this comparison of sizes tells whether every requested name is
  the name of an export or of a re-export, the test of line 255 agrees with its name.
\<close>

definition sizeTestAgrees :: "'s ext \<Rightarrow> options \<Rightarrow> 's program \<Rightarrow> collected \<Rightarrow> bool" where
  "sizeTestAgrees E opts root col =
     (isAllExportsFound (fst (normalizeExports E root col)) (requestedNames E opts root col) col
        (snd (normalizeExports E root col))
      = (unmatchedNames E opts root col = []))"

text \<open>The exports and re-exports with a requested name.\<close>

definition matchedEntries ::
  "'s ext \<Rightarrow> options \<Rightarrow> 's program \<Rightarrow> collected \<Rightarrow> (string \<times> node) list" where
  "matchedEntries E opts root col =
     filter (\<lambda>e. fst e \<in> set (requestedNames E opts root col))
       (nameEntries (snd (normalizeExports E root col)) col)"

text \<open>
  A module and a request where the sizes do count names: no two of the exports and
  re-exports with a requested name have the same name or the same node, and no export
  without a requested name has a node that is named like an imported name.
\<close>

definition oneNodePerName :: "'s ext \<Rightarrow> options \<Rightarrow> 's program \<Rightarrow> collected \<Rightarrow> bool" where
  "oneNodePerName E opts root col =
     (distinct (map fst (matchedEntries E opts root col))
      \<and> distinct (map snd (matchedEntries E opts root col))
      \<and> list_all (\<lambda>e. fst e \<in> set (requestedNames E opts root col)
                       \<or> nameOrEmpty (fst (normalizeExports E root col)) (snd e)
                            \<notin> set (map imported (importRecs col)))
            (snd (normalizeExports E root col)))"

text \<open>A module with one initializer exported under two names, and a third export.\<close>

definition sharedInit :: collected where
  "sharedInit = \<lparr>exports = [(''x'', 4), (''y'', 4), (''z'', 6)], exportRefs = [],
                  importRecs = [], reexports = [], isEsModule = True\<rparr>"


text \<open>
  A module with three exports and one import; the node of the second export carries the
  name of what is imported.
\<close>

definition importNamed :: collected where
  "importNamed = \<lparr>exports = [(''a'', 5), (''b'', 6), (''c'', 7)], exportRefs = [],
                   importRecs = [\<lparr>imported = ''imp'', source = ''./m'', local = 20\<rparr>],
                   reexports = [], isEsModule = True\<rparr>"

definition importNamedProgram :: "graph program" where
  "importNamedProgram = oneStatement\<lparr>nodes := [(6, Named ''imp'')]\<rparr>"







section \<open>Objects\<close>

lemma set_ownOrder: "set (ownOrder key xs) = set xs"
  by (auto simp: ownOrder_def)



lemma ownOrder_plain: "\<forall>x\<in>set xs. arrayIndex (key x) = None \<Longrightarrow> ownOrder key xs = xs"
proof -
  assume a: "\<forall>x\<in>set xs. arrayIndex (key x) = None"
  then have "filter (\<lambda>x. arrayIndex (key x) \<noteq> None) xs = []"
    by (intro filter_False) simp
  moreover from a have "filter (\<lambda>x. arrayIndex (key x) = None) xs = xs"
    by (intro filter_True) simp
  ultimately show ?thesis by (simp add: ownOrder_def)
qed

lemma set_objEntries: "set (objEntries obj) = set obj"
  by (simp add: objEntries_def set_ownOrder)

lemma set_objKeys: "set (objKeys obj) = fst ` set obj"
  by (simp add: objKeys_def set_objEntries)

lemma set_objValues: "set (objValues obj) = snd ` set obj"
  by (simp add: objValues_def set_objEntries)


lemma arrayIndex_letter:
  "s \<noteq> [] \<Longrightarrow> hd s \<notin> set ''0123456789'' \<Longrightarrow> arrayIndex s = None"
  by (cases s) (auto simp: arrayIndex_def)

lemma updateProp_names: "map fst (updateProp k v es) = map fst es"
  by (induction es) auto

lemma updateProp_map_of:
  "k \<in> fst ` set es \<Longrightarrow> map_of (updateProp k v es) k' = ((map_of es)(k \<mapsto> v)) k'"
proof (induction es)
  case Nil
  then show ?case by simp
next
  case (Cons e es)
  obtain a b where e: "e = (a, b)" by (cases e)
  show ?case
  proof (cases "k = a")
    case True
    then show ?thesis by (simp add: e)
  next
    case False
    then have "k \<in> fst ` set es" using Cons.prems by (auto simp: e)
    from Cons.IH [OF this] False show ?thesis by (auto simp: e)
  qed
qed

lemma assignProp_names:
  "map fst (assignProp k v es)
     = (if k \<in> set (map fst es) \<or> k = ''__proto__'' then map fst es else map fst es @ [k])"
  by (simp add: assignProp_def updateProp_names)

lemma assignProp_keys:
  "fst ` set (assignProp k v es)
     = (if k = ''__proto__'' then fst ` set es else insert k (fst ` set es))"
proof -
  have "fst ` set (assignProp k v es) = set (map fst (assignProp k v es))"
    by simp
  also have "\<dots> = (if k = ''__proto__'' then fst ` set es else insert k (fst ` set es))"
    unfolding assignProp_names by auto
  finally show ?thesis .
qed

lemma append_map_of:
  "k \<notin> fst ` set es \<Longrightarrow> map_of (es @ [(k, v)]) k' = ((map_of es)(k \<mapsto> v)) k'"
  by (induction es) auto

lemma assignProp_map_of:
  "map_of (assignProp k v es) k'
     = (if k \<in> fst ` set es \<or> k \<noteq> ''__proto__'' then ((map_of es)(k \<mapsto> v)) k'
        else map_of es k')"
proof (cases "k \<in> fst ` set es")
  case True
  then show ?thesis by (simp add: assignProp_def updateProp_map_of)
next
  case False
  then show ?thesis by (simp add: assignProp_def append_map_of del: map_of_append)
qed

section \<open>Normalisation: what it leaves alone\<close>

lemma replaceRef_frame:
  "body (replaceRef E uid pr r) = body pr \<and> removed (replaceRef E uid pr r) = removed pr
   \<and> nextPath (replaceRef E uid pr r) = nextPath pr"
  by (simp add: replaceRef_def Let_def)

lemma foldl_replaceRef_frame:
  "body (foldl (replaceRef E uid) pr rs) = body pr
   \<and> removed (foldl (replaceRef E uid) pr rs) = removed pr
   \<and> nextPath (foldl (replaceRef E uid) pr rs) = nextPath pr"
  by (induction rs arbitrary: pr) (simp_all add: replaceRef_frame)

lemma rearrangeOne_removed:
  "removed (fst (rearrangeOne E (pr, ex) entry)) = removed pr"
  by (cases entry) (simp add: rearrangeOne_def Let_def foldl_replaceRef_frame split: prod.splits)

lemma rearrangeOne_untouched:
  "length refs \<le> 1 \<Longrightarrow> rearrangeOne E (pr, ex) (name, refs) = (pr, ex)"
  by (simp add: rearrangeOne_def)

lemma replaceRef_nodes: "nodes (replaceRef E uid pr r) = (r, Identifier uid) # nodes pr"
  by (simp add: replaceRef_def Let_def)

lemma foldl_replaceRef_nodes:
  "map_of (nodes (foldl (replaceRef E uid) pr refs)) r
     = (if r \<in> set refs then Some (Identifier uid) else map_of (nodes pr) r)"
  by (induction refs arbitrary: pr) (auto simp: replaceRef_nodes)

lemma rearrangeOne_rewrites:
  assumes "1 < length refs" and "generateUid E pr name = (uid, sc)"
  shows "body (fst (rearrangeOne E (pr, ex) (name, refs)))
           = VarDecl (nextPath pr) uid # body pr
               @ [AssignExport (nextPath pr + 1) name uid (nextPath pr + 2)]"
    and "map_of (nodes (fst (rearrangeOne E (pr, ex) (name, refs)))) r
           = (if r = nextPath pr + 2 \<or> r \<in> set refs then Some (Identifier uid)
              else map_of (nodes pr) r)"
    and "snd (rearrangeOne E (pr, ex) (name, refs)) = assignProp name (nextPath pr + 2) ex"
    and "nextPath (fst (rearrangeOne E (pr, ex) (name, refs))) = nextPath pr + 3"
  using assms
  by (simp_all add: rearrangeOne_def Let_def foldl_replaceRef_frame foldl_replaceRef_nodes)

lemma rearrangeOne_names:
  "map fst (snd (rearrangeOne E (pr, ex) entry))
     = (if length (snd entry) \<le> 1 \<or> fst entry = ''__proto__'' then map fst ex
        else setAdd (fst entry) (map fst ex))"
proof (cases entry)
  case (Pair name refs)
  obtain uid sc where g: "generateUid E pr name = (uid, sc)"
    by (cases "generateUid E pr name")
  show ?thesis
  proof (cases "length refs \<le> 1")
    case True
    then show ?thesis by (simp add: Pair rearrangeOne_untouched)
  next
    case False
    then have m: "1 < length refs" by simp
    show ?thesis
      using False
      by (simp add: Pair rearrangeOne_rewrites(3) [OF m g] assignProp_names setAdd_def)
  qed
qed

lemma foldl_rearrangeOne_names:
  "map fst (snd (foldl (rearrangeOne E) st refs)) = rearrangedNames (map fst (snd st)) refs"
proof (induction refs arbitrary: st)
  case Nil
  show ?case by (simp add: rearrangedNames_def)
next
  case (Cons r refs)
  obtain pr ex where st: "st = (pr, ex)" by (cases st)
  show ?case
    using Cons.IH [of "rearrangeOne E st r"] rearrangeOne_names [of E pr ex r]
    by (simp add: st rearrangedNames_def)
qed

lemma set_rearrangedNames:
  "set (rearrangedNames names refs)
     = set names \<union> {k. k \<noteq> ''__proto__'' \<and> (\<exists>rs. (k, rs) \<in> set refs \<and> 1 < length rs)}"
proof (induction refs arbitrary: names)
  case Nil
  show ?case by (simp add: rearrangedNames_def)
next
  case (Cons r refs)
  obtain k rs where r: "r = (k, rs)" by (cases r)
  have "rearrangedNames names (r # refs)
          = rearrangedNames (if length rs \<le> 1 \<or> k = ''__proto__'' then names else setAdd k names)
              refs"
    by (simp add: rearrangedNames_def r)
  then show ?case
    by (auto simp: Cons.IH r setAdd_def)
qed

section \<open>The export normalizer\<close>

lemma declaredNames_append: "declaredNames (xs @ ys) = declaredNames xs @ declaredNames ys"
  by (induction xs rule: declaredNames.induct) auto

lemma declaredNames_assign: "list_all isAssignExport A \<Longrightarrow> declaredNames A = []"
  by (induction A rule: declaredNames.induct) auto

lemma foldl_replaceRef_nodes_list:
  "nodes (foldl (replaceRef E uid) pr refs) = map (\<lambda>r. (r, Identifier uid)) (rev refs) @ nodes pr"
  by (induction refs arbitrary: pr) (auto simp: replaceRef_nodes)

lemma rearrangeOne_nodes:
  assumes "1 < length refs" and "generateUid E pr name = (uid, sc)"
  shows "nodes (fst (rearrangeOne E (pr, ex) (name, refs)))
           = (nextPath pr + 2, Identifier uid) # map (\<lambda>r. (r, Identifier uid)) (rev refs) @ nodes pr"
  using assms
  by (simp add: rearrangeOne_def Let_def foldl_replaceRef_frame foldl_replaceRef_nodes_list)

lemma identifierNames_append:
  "identifierNames (pr\<lparr>nodes := xs @ ys\<rparr>)
     = identifierNames (pr\<lparr>nodes := xs\<rparr>) @ identifierNames (pr\<lparr>nodes := ys\<rparr>)"
  by (simp add: identifierNames_def)

lemma rearrangeOne_namesIn:
  assumes "1 < length refs" and "generateUid E pr name = (uid, sc)"
  shows "namesIn (fst (rearrangeOne E (pr, ex) (name, refs))) = insert uid (namesIn pr)"
proof -
  let ?pr' = "fst (rearrangeOne E (pr, ex) (name, refs))"
  have b: "declaredNames (body ?pr') = uid # declaredNames (body pr)"
    by (simp add: rearrangeOne_rewrites(1) [OF assms] declaredNames_append)
  have "refs \<noteq> []" using assms(1) by auto
  have n: "set (identifierNames ?pr') = insert uid (set (identifierNames pr))"
    by (auto simp: identifierNames_def rearrangeOne_nodes [OF assms])
  show ?thesis by (simp add: namesIn_def b n)
qed


lemma normalizes_start: "normalizes root ex0 [] root ex0 [] []"
  by (simp add: normalizes_def)

lemma normalizes_step:
  assumes inv: "normalizes root ex0 M pr ex D A"
    and m: "1 < length refs" and g: "generateUid E pr name = (uid, sc)"
    and fresh: "uid \<notin> namesIn pr"
    and newname: "name \<notin> fst ` set M"
    and bound: "\<forall>r\<in>set refs. r < nextPath root"
    and boundM: "\<forall>e\<in>set M. \<forall>r\<in>set (snd e). r < nextPath root"
    and disj: "set refs \<inter> \<Union> (set ` snd ` set M) = {}"
  shows "normalizes root ex0 (M @ [(name, refs)])
           (fst (rearrangeOne E (pr, ex) (name, refs)))
           (snd (rearrangeOne E (pr, ex) (name, refs)))
           (VarDecl (nextPath pr) uid # D)
           (A @ [AssignExport (nextPath pr + 1) name uid (nextPath pr + 2)])"
proof -
  let ?pr' = "fst (rearrangeOne E (pr, ex) (name, refs))"
  let ?ex' = "snd (rearrangeOne E (pr, ex) (name, refs))"
  let ?l = "nextPath pr + 2"
  note rw = rearrangeOne_rewrites [OF m g, of ex]
  have exq: "?ex' = assignProp name ?l ex" by (rule rw(3))
  have nodes': "\<And>r. map_of (nodes ?pr') r
           = (if r = ?l \<or> r \<in> set refs then Some (Identifier uid) else map_of (nodes pr) r)"
    by (rule rw(2))
  from inv have i1: "body pr = D @ body root @ A"
    and i2: "list_all isVarDecl D" "list_all isAssignExport A"
    and i3: "length D = length M" "map assignedName A = map fst M"
    and i5: "distinct (declaredNames D)" "set (declaredNames D) \<inter> namesIn root = {}"
    and i7: "removed pr = removed root"
    and i8: "nextPath pr = nextPath root + 3 * length M"
    and i9: "namesIn root \<subseteq> namesIn pr"
    and i10: "fst ` set ex0 \<subseteq> fst ` set ex"
    by (simp_all add: normalizes_def)
  from inv have i11: "\<forall>e\<in>set M. \<exists>uid d s l.
            VarDecl d uid \<in> set D \<and> AssignExport s (fst e) uid l \<in> set A
            \<and> nextPath root \<le> l \<and> l < nextPath pr
            \<and> (\<forall>r\<in>set (snd e). map_of (nodes pr) r = Some (Identifier uid))
            \<and> map_of (nodes pr) l = Some (Identifier uid)
            \<and> (fst e \<in> fst ` set ex0 \<or> fst e \<noteq> ''__proto__'' \<longrightarrow> map_of ex (fst e) = Some l)"
    unfolding normalizes_def by blast
  from inv have i12: "\<forall>k. k \<notin> fst ` set M \<longrightarrow> map_of ex k = map_of ex0 k"
    unfolding normalizes_def by blast
  from inv have i13: "\<forall>p. p < nextPath root \<and> p \<notin> \<Union> (set ` snd ` set M)
            \<longrightarrow> map_of (nodes pr) p = map_of (nodes root) p"
    unfolding normalizes_def by blast
  have c1: "body ?pr' = (VarDecl (nextPath pr) uid # D) @ body root
              @ (A @ [AssignExport (nextPath pr + 1) name uid ?l])"
    by (simp add: rw(1) i1)
  have dn: "set (declaredNames D) \<subseteq> namesIn pr"
    by (auto simp: namesIn_def i1 declaredNames_append)
  have c5: "distinct (declaredNames (VarDecl (nextPath pr) uid # D))"
    using i5(1) dn fresh by auto
  have c6: "set (declaredNames (VarDecl (nextPath pr) uid # D)) \<inter> namesIn root = {}"
    using i5(2) i9 fresh by auto
  have c7: "removed ?pr' = removed root"
    by (simp add: rearrangeOne_removed i7)
  have c8: "nextPath ?pr' = nextPath root + 3 * length (M @ [(name, refs)])"
    by (simp add: rw(4) i8)
  have c9: "namesIn root \<subseteq> namesIn ?pr'"
    using i9 by (auto simp: rearrangeOne_namesIn [OF m g])
  have c10: "fst ` set ex0 \<subseteq> fst ` set ?ex'"
    using i10 by (auto simp: exq assignProp_keys)
  have c11: "\<forall>e\<in>set (M @ [(name, refs)]). \<exists>u d s l.
            VarDecl d u \<in> set (VarDecl (nextPath pr) uid # D)
            \<and> AssignExport s (fst e) u l
                 \<in> set (A @ [AssignExport (nextPath pr + 1) name uid ?l])
            \<and> nextPath root \<le> l \<and> l < nextPath ?pr'
            \<and> (\<forall>r\<in>set (snd e). map_of (nodes ?pr') r = Some (Identifier u))
            \<and> map_of (nodes ?pr') l = Some (Identifier u)
            \<and> (fst e \<in> fst ` set ex0 \<or> fst e \<noteq> ''__proto__'' \<longrightarrow> map_of ?ex' (fst e) = Some l)"
  proof
    fix e assume "e \<in> set (M @ [(name, refs)])"
    then consider (old) "e \<in> set M" | (new) "e = (name, refs)" by auto
    then show "\<exists>u d s l.
            VarDecl d u \<in> set (VarDecl (nextPath pr) uid # D)
            \<and> AssignExport s (fst e) u l
                 \<in> set (A @ [AssignExport (nextPath pr + 1) name uid ?l])
            \<and> nextPath root \<le> l \<and> l < nextPath ?pr'
            \<and> (\<forall>r\<in>set (snd e). map_of (nodes ?pr') r = Some (Identifier u))
            \<and> map_of (nodes ?pr') l = Some (Identifier u)
            \<and> (fst e \<in> fst ` set ex0 \<or> fst e \<noteq> ''__proto__'' \<longrightarrow> map_of ?ex' (fst e) = Some l)"
    proof cases
      case old
      from i11 old obtain u0 d0 s0 l0 where
        o: "VarDecl d0 u0 \<in> set D" "AssignExport s0 (fst e) u0 l0 \<in> set A"
           "nextPath root \<le> l0" "l0 < nextPath pr"
           "\<forall>r\<in>set (snd e). map_of (nodes pr) r = Some (Identifier u0)"
           "map_of (nodes pr) l0 = Some (Identifier u0)"
           "fst e \<in> fst ` set ex0 \<or> fst e \<noteq> ''__proto__'' \<longrightarrow> map_of ex (fst e) = Some l0"
        by blast
      have ne: "fst e \<noteq> name" using old newname by auto
      have v1: "\<forall>r\<in>set (snd e). map_of (nodes ?pr') r = Some (Identifier u0)"
      proof
        fix r assume r: "r \<in> set (snd e)"
        then have "r < nextPath root" using boundM old by blast
        then have "r \<noteq> ?l" using i8 by simp
        moreover have "r \<notin> set refs" using disj r old by auto
        ultimately show "map_of (nodes ?pr') r = Some (Identifier u0)"
          using o(5) r by (simp add: nodes')
      qed
      have "l0 \<noteq> ?l" using o(4) by simp
      moreover have "l0 \<notin> set refs" using bound o(3) by auto
      ultimately have v2: "map_of (nodes ?pr') l0 = Some (Identifier u0)"
        using o(6) by (simp add: nodes')
      have v3: "fst e \<in> fst ` set ex0 \<or> fst e \<noteq> ''__proto__'' \<longrightarrow> map_of ?ex' (fst e) = Some l0"
        using o(7) ne by (simp add: exq assignProp_map_of)
      have "l0 < nextPath ?pr'" using o(4) by (simp add: rw(4))
      with o(1,2,3) v1 v2 v3 show ?thesis
        by (intro exI [of _ u0] exI [of _ d0] exI [of _ s0] exI [of _ l0]) simp
    next
      case new
      have v1: "\<forall>r\<in>set (snd e). map_of (nodes ?pr') r = Some (Identifier uid)"
        by (simp add: new nodes')
      have v2: "map_of (nodes ?pr') ?l = Some (Identifier uid)"
        by (simp add: nodes')
      have v3: "fst e \<in> fst ` set ex0 \<or> fst e \<noteq> ''__proto__'' \<longrightarrow> map_of ?ex' (fst e) = Some ?l"
        using i10 by (auto simp: new exq assignProp_map_of)
      have "nextPath root \<le> ?l" "?l < nextPath ?pr'"
        using i8 by (simp_all add: rw(4))
      with v1 v2 v3 show ?thesis
        by (intro exI [of _ uid] exI [of _ "nextPath pr"] exI [of _ "nextPath pr + 1"]
            exI [of _ ?l]) (simp add: new)
    qed
  qed
  have c12: "\<forall>k. k \<notin> fst ` set (M @ [(name, refs)]) \<longrightarrow> map_of ?ex' k = map_of ex0 k"
    using i12 by (auto simp: exq assignProp_map_of)
  have c13: "\<forall>p. p < nextPath root \<and> p \<notin> \<Union> (set ` snd ` set (M @ [(name, refs)]))
            \<longrightarrow> map_of (nodes ?pr') p = map_of (nodes root) p"
  proof (intro allI impI)
    fix p assume p: "p < nextPath root \<and> p \<notin> \<Union> (set ` snd ` set (M @ [(name, refs)]))"
    then have "p \<noteq> ?l" using i8 by simp
    moreover have "p \<notin> set refs" using p by simp
    moreover have "map_of (nodes pr) p = map_of (nodes root) p" using i13 p by simp
    ultimately show "map_of (nodes ?pr') p = map_of (nodes root) p"
      by (simp add: nodes')
  qed
  have c2: "list_all isVarDecl (VarDecl (nextPath pr) uid # D)"
    "list_all isAssignExport (A @ [AssignExport (nextPath pr + 1) name uid ?l])"
    using i2 by simp_all
  have c3: "length (VarDecl (nextPath pr) uid # D) = length (M @ [(name, refs)])"
    "map assignedName (A @ [AssignExport (nextPath pr + 1) name uid ?l])
       = map fst (M @ [(name, refs)])"
    using i3 by simp_all
  show ?thesis
    unfolding normalizes_def
    by (intro conjI; fact)
qed


lemma multiply_snoc:
  "multiply (refs @ [x]) = (if 1 < length (snd x) then multiply refs @ [x] else multiply refs)"
  by (simp add: multiply_def)

lemma set_multiply: "set (multiply refs) \<subseteq> set refs"
  by (auto simp: multiply_def)

lemma foldl_rearrangeOne_normalizes:
  assumes fresh: "generatesFresh E"
  shows "distinct (map fst refs) \<Longrightarrow> distinct (concat (map snd refs))
     \<Longrightarrow> \<forall>e\<in>set refs. \<forall>r\<in>set (snd e). r < nextPath root
     \<Longrightarrow> \<exists>D A. normalizes root ex0 (multiply refs)
                 (fst (foldl (rearrangeOne E) (root, ex0) refs))
                 (snd (foldl (rearrangeOne E) (root, ex0) refs)) D A"
proof (induction refs rule: rev_induct)
  case Nil
  show ?case using normalizes_start [of root ex0] by (auto simp: multiply_def)
next
  case (snoc x refs)
  obtain name rs where x: "x = (name, rs)" by (cases x)
  let ?st = "foldl (rearrangeOne E) (root, ex0) refs"
  have d1: "distinct (map fst refs)" and d2: "distinct (concat (map snd refs))"
    and b: "\<forall>e\<in>set refs. \<forall>r\<in>set (snd e). r < nextPath root"
    using snoc.prems by simp_all
  from snoc.IH [OF d1 d2 b] obtain D A where
    inv: "normalizes root ex0 (multiply refs) (fst ?st) (snd ?st) D A" by blast
  show ?case
  proof (cases "1 < length rs")
    case False
    then have "rearrangeOne E ?st x = ?st"
      using rearrangeOne_untouched [of rs E "fst ?st" "snd ?st" name] by (simp add: x)
    with inv False show ?thesis by (auto simp: multiply_snoc x)
  next
    case True
    obtain uid sc where g: "generateUid E (fst ?st) name = (uid, sc)"
      by (cases "generateUid E (fst ?st) name")
    have f: "uid \<notin> namesIn (fst ?st)"
      using fresh g unfolding generatesFresh_def by (metis fst_conv)
    have nn: "name \<notin> fst ` set (multiply refs)"
      using snoc.prems(1) set_multiply [of refs] by (auto simp: x)
    have bd: "\<forall>r\<in>set rs. r < nextPath root"
      using snoc.prems(3) by (simp add: x)
    have bM: "\<forall>e\<in>set (multiply refs). \<forall>r\<in>set (snd e). r < nextPath root"
      using b set_multiply [of refs] by blast
    have dj: "set rs \<inter> \<Union> (set ` snd ` set (multiply refs)) = {}"
      using snoc.prems(2) set_multiply [of refs] by (auto simp: x)
    from normalizes_step [OF _ True g f nn bd bM dj, of ex0 "snd ?st" D A] inv
    have "normalizes root ex0 (multiply refs @ [(name, rs)])
           (fst (rearrangeOne E ?st (name, rs)))
           (snd (rearrangeOne E ?st (name, rs)))
           (VarDecl (nextPath (fst ?st)) uid # D)
           (A @ [AssignExport (nextPath (fst ?st) + 1) name uid (nextPath (fst ?st) + 2)])"
      by simp
    then show ?thesis using True by (auto simp: multiply_snoc x)
  qed
qed

lemma rearrangeExports_normalizes:
  assumes "generatesFresh E" and "distinct (map fst refs)"
    and "distinct (concat (map snd refs))"
    and "\<forall>e\<in>set refs. \<forall>r\<in>set (snd e). r < nextPath root"
  shows "\<exists>D A. normalizes root (objEntries exps) (multiply refs)
                 (fst (rearrangeExports E root refs exps))
                 (snd (rearrangeExports E root refs exps)) D A"
  unfolding rearrangeExports_def
  by (rule foldl_rearrangeOne_normalizes [OF assms])

lemma longest_ge: "x \<in> set xs \<Longrightarrow> length x \<le> longest xs"
  by (induction xs) (auto simp: longest_def)

lemma freshName_fresh: "freshName used name \<notin> set used"
proof
  assume "freshName used name \<in> set used"
  then have "length (freshName used name) \<le> longest used" by (rule longest_ge)
  then show False by (simp add: freshName_def)
qed

lemma plainExt_generatesFresh: "generatesFresh (plainExt ds as an bs)"
proof -
  have "\<And>pr name. freshName (usedNames pr) name \<notin> namesIn pr"
  proof -
    fix pr :: "graph program" and name
    have "namesIn pr \<subseteq> set (usedNames pr)" by (auto simp: namesIn_def usedNames_def)
    then show "freshName (usedNames pr) name \<notin> namesIn pr"
      using freshName_fresh [of "usedNames pr" name] by blast
  qed
  then show ?thesis by (simp add: generatesFresh_def plainExt_def)
qed

lemma rearrangeExports_single:
  "list_all (\<lambda>e. length (snd e) \<le> 1) refs
     \<Longrightarrow> rearrangeExports E root refs exps = (root, objEntries exps)"
proof -
  have "\<And>st. list_all (\<lambda>e. length (snd e) \<le> 1) refs \<Longrightarrow> foldl (rearrangeOne E) st refs = st"
  proof (induction refs)
    case Nil
    show ?case by simp
  next
    case (Cons r refs)
    obtain name rs where r: "r = (name, rs)" by (cases r)
    obtain pr ex where st: "st = (pr, ex)" by (cases st)
    have "rearrangeOne E st r = st"
      using Cons.prems by (simp add: r st rearrangeOne_untouched)
    then show ?case using Cons by simp
  qed
  then show "list_all (\<lambda>e. length (snd e) \<le> 1) refs
     \<Longrightarrow> rearrangeExports E root refs exps = (root, objEntries exps)"
    by (simp add: rearrangeExports_def)
qed

text \<open>
  Claim C8: when the generator of identifiers is collision-free, \<open>exportRefs\<close> is a map (its
  names are pairwise distinct), no reference site belongs to two names, and the reference
  sites are paths of the input, then the normalizer puts in front of the input's body one
  declaration and behind it one assignment for every name with more than one internal
  reference site, the assignments in the order of the names and each for its name; the
  declared identifiers are pairwise distinct and none of them is a name of the input; for
  every such name there are a declaration of an identifier and an assignment of this
  identifier to the name such that the identifier sits at every reference site of the name
  and at the right-hand side of the assignment, a new path, and the export entry points at
  this right-hand side (unless the name is \<open>__proto__\<close> and not an export: then the assignment
  to \<open>rearranged\<close> creates no entry); nothing is removed; the entry of every other name and
  the node at every other path of the input are as they were.
\<close>

theorem rearrange_multiply_referenced:
  assumes "generatesFresh E" and "distinct (map fst refs)"
    and "distinct (concat (map snd refs))"
    and "\<forall>e\<in>set refs. \<forall>r\<in>set (snd e). r < nextPath root"
  shows "\<exists>D A. normalizes root (objEntries exps) (multiply refs)
                 (fst (rearrangeExports E root refs exps))
                 (snd (rearrangeExports E root refs exps)) D A"
  using assms by (rule rearrangeExports_normalizes)

theorem rearrange_multiply_referenced_witness:
  "distinct (map fst [(''foo'', [10, 11 :: node]), (''bar'', [12])])
   \<and> distinct (concat (map snd [(''foo'', [10, 11 :: node]), (''bar'', [12])]))
   \<and> multiply [(''foo'', [10, 11 :: node]), (''bar'', [12])] = [(''foo'', [10, 11])]
   \<and> length (body (fst (rearrangeExports (plainExt [] [] [] []) oneStatement
                 [(''foo'', [10, 11]), (''bar'', [12])] [(''bar'', 5)]))) = 3
   \<and> nextPath (fst (rearrangeExports (plainExt [] [] [] []) oneStatement
                 [(''foo'', [10, 11]), (''bar'', [12])] [(''bar'', 5)])) = 103
   \<and> map_of (snd (rearrangeExports (plainExt [] [] [] []) oneStatement
                 [(''foo'', [10, 11]), (''bar'', [12])] [(''bar'', 5)])) ''bar'' = Some 5"
proof -
  let ?R = "[(''foo'', [10, 11 :: node]), (''bar'', [12])]"
  let ?E = "plainExt [] [] [] []"
  have a: "distinct (map fst ?R)" by simp
  have b: "distinct (concat (map snd ?R))" by simp
  have c: "\<forall>e\<in>set ?R. \<forall>r\<in>set (snd e). r < nextPath oneStatement"
    by (simp add: oneStatement_def emptyProgram_def)
  have m: "multiply ?R = [(''foo'', [10, 11])]" by (simp add: multiply_def)
  have e: "objEntries [(''bar'', 5 :: node)] = [(''bar'', 5)]"
    by (simp add: objEntries_def ownOrder_def arrayIndex_def)
  from rearrange_multiply_referenced [OF plainExt_generatesFresh a b c, of "[(''bar'', 5)]"]
  obtain D A where n: "normalizes oneStatement [(''bar'', 5)] [(''foo'', [10, 11])]
                 (fst (rearrangeExports ?E oneStatement ?R [(''bar'', 5)]))
                 (snd (rearrangeExports ?E oneStatement ?R [(''bar'', 5)])) D A"
    unfolding m e by blast
  from n have 1: "body (fst (rearrangeExports ?E oneStatement ?R [(''bar'', 5)]))
                    = D @ body oneStatement @ A"
    and 2: "length D = 1" and 3: "map assignedName A = [''foo'']"
    and 4: "nextPath (fst (rearrangeExports ?E oneStatement ?R [(''bar'', 5)]))
              = nextPath oneStatement + 3"
    by (simp_all add: normalizes_def)
  from n have 5: "\<forall>k. k \<notin> fst ` set [(''foo'', [10, 11 :: node])]
             \<longrightarrow> map_of (snd (rearrangeExports ?E oneStatement ?R [(''bar'', 5)])) k
                  = map_of [(''bar'', 5)] k"
    unfolding normalizes_def by blast
  from 3 have "length (map assignedName A) = 1" by simp
  then have 6: "length A = 1" by simp
  have o: "body oneStatement = [Original 1]" "nextPath oneStatement = 100"
    by (simp_all add: oneStatement_def emptyProgram_def)
  have l: "length (body (fst (rearrangeExports ?E oneStatement ?R [(''bar'', 5)]))) = 3"
    by (simp add: 1 2 6 o)
  have np: "nextPath (fst (rearrangeExports ?E oneStatement ?R [(''bar'', 5)])) = 103"
    by (simp add: 4 o)
  have bar: "map_of (snd (rearrangeExports ?E oneStatement ?R [(''bar'', 5)])) ''bar'' = Some 5"
    using 5 by simp
  from a b m l np bar show ?thesis by (intro conjI)
qed

lemma map_insort_key:
  "map f (insort_key (\<lambda>x. g (f x)) x xs) = insort_key g (f x) (map f xs)"
  by (induction xs) auto

lemma map_sort_key: "map f (sort_key (\<lambda>x. g (f x)) xs) = sort_key g (map f xs)"
  by (induction xs) (simp_all add: map_insort_key)

lemma map_ownOrder: "map key (ownOrder key xs) = ownOrder (\<lambda>k. k) (map key xs)"
proof -
  have 1: "filter (\<lambda>k. arrayIndex k \<noteq> None) (map key xs)
             = map key (filter (\<lambda>x. arrayIndex (key x) \<noteq> None) xs)"
    by (simp only: filter_map comp_def)
  have 2: "filter (\<lambda>k. arrayIndex k = None) (map key xs)
             = map key (filter (\<lambda>x. arrayIndex (key x) = None) xs)"
    by (simp only: filter_map comp_def)
  show ?thesis
    unfolding ownOrder_def 1 2 map_append
    by (simp only: map_sort_key [of key "\<lambda>k. case arrayIndex k of Some i \<Rightarrow> i | None \<Rightarrow> 0"])
qed

lemma objKeys_keyOrder: "objKeys obj = keyOrder (map fst obj)"
  by (simp add: objKeys_def objEntries_def keyOrder_def map_ownOrder)

lemma set_keyOrder: "set (keyOrder ks) = set ks"
  by (simp add: keyOrder_def set_ownOrder)

lemma markAssignmentLeft_frame:
  "body (markAssignmentLeft E pr l) = body pr \<and> removed (markAssignmentLeft E pr l) = removed pr
   \<and> nodes (markAssignmentLeft E pr l) = nodes pr
   \<and> nextPath (markAssignmentLeft E pr l) = nextPath pr"
  by (simp add: markAssignmentLeft_def split: nodeView.splits)

lemma foldl_markAssignmentLeft_frame:
  "body (foldl (markAssignmentLeft E) pr ls) = body pr
   \<and> removed (foldl (markAssignmentLeft E) pr ls) = removed pr
   \<and> nodes (foldl (markAssignmentLeft E) pr ls) = nodes pr
   \<and> nextPath (foldl (markAssignmentLeft E) pr ls) = nextPath pr"
  by (induction ls arbitrary: pr) (simp_all add: markAssignmentLeft_frame)

lemma normalizeExports_snd:
  "snd (normalizeExports E root col)
     = snd (rearrangeExports E root (exportRefs col) (exports col))"
  by (simp add: normalizeExports_def split: prod.splits)

lemma normalizeExports_frame:
  "body (fst (normalizeExports E root col))
     = body (fst (rearrangeExports E root (exportRefs col) (exports col)))
   \<and> removed (fst (normalizeExports E root col))
     = removed (fst (rearrangeExports E root (exportRefs col) (exports col)))
   \<and> nodes (fst (normalizeExports E root col))
     = nodes (fst (rearrangeExports E root (exportRefs col) (exports col)))
   \<and> nextPath (fst (normalizeExports E root col))
     = nextPath (fst (rearrangeExports E root (exportRefs col) (exports col)))"
  by (simp add: normalizeExports_def foldl_markAssignmentLeft_frame split: prod.splits)

lemma foldl_rearrangeOne_removed:
  "removed (fst (foldl (rearrangeOne E) st refs)) = removed (fst st)"
proof (induction refs arbitrary: st)
  case Nil
  show ?case by simp
next
  case (Cons r refs)
  obtain pr ex where st: "st = (pr, ex)" by (cases st)
  show ?case using Cons.IH [of "rearrangeOne E st r"] rearrangeOne_removed [of E pr ex r]
    by (simp add: st)
qed

lemma normalizeExports_removed: "removed (fst (normalizeExports E root col)) = removed root"
  by (simp add: normalizeExports_frame rearrangeExports_def foldl_rearrangeOne_removed)

lemma normalizeExports_names:
  "map fst (snd (normalizeExports E root col))
     = rearrangedNames (objKeys (exports col)) (exportRefs col)"
  using foldl_rearrangeOne_names [of E "(root, objEntries (exports col))" "exportRefs col"]
  by (simp add: normalizeExports_snd rearrangeExports_def objKeys_def)

lemma normalizeExports_keys:
  "fst ` set (snd (normalizeExports E root col))
     = fst ` set (exports col)
       \<union> {k. k \<noteq> ''__proto__'' \<and> (\<exists>rs. (k, rs) \<in> set (exportRefs col) \<and> 1 < length rs)}"
proof -
  have "fst ` set (snd (normalizeExports E root col))
          = set (map fst (snd (normalizeExports E root col)))"
    by simp
  also have "\<dots> = set (objKeys (exports col))
       \<union> {k. k \<noteq> ''__proto__'' \<and> (\<exists>rs. (k, rs) \<in> set (exportRefs col) \<and> 1 < length rs)}"
    unfolding normalizeExports_names by (rule set_rearrangedNames)
  finally show ?thesis by (simp add: set_objKeys)
qed

lemma foldl_removeStmt:
  "body (foldl removeStmt pr ps) = filter (\<lambda>s. stmtPath s \<notin> set ps) (body pr)
   \<and> removed (foldl removeStmt pr ps) = rev ps @ removed pr"
proof (induction ps arbitrary: pr)
  case Nil
  show ?case by simp
next
  case (Cons p ps)
  have "filter (\<lambda>s. stmtPath s \<notin> set ps) (filter (\<lambda>s. stmtPath s \<noteq> p) (body pr))
          = filter (\<lambda>s. stmtPath s \<notin> set (p # ps)) (body pr)"
    by (induction "body pr") auto
  then show ?case using Cons.IH [of "removeStmt pr p"] by (simp add: removeStmt_def)
qed

lemma removeBody_body: "body (removeBody pr) = []"
  by (simp add: removeBody_def foldl_removeStmt)

lemma removeBody_removed: "removed (removeBody pr) = rev (map stmtPath (body pr)) @ removed pr"
  by (simp add: removeBody_def foldl_removeStmt)

lemma rearrangeOne_body:
  "set (body pr) \<subseteq> set (body (fst (rearrangeOne E (pr, ex) entry)))"
proof (cases entry)
  case (Pair name refs)
  obtain uid sc where g: "generateUid E pr name = (uid, sc)"
    by (cases "generateUid E pr name")
  show ?thesis
    by (auto simp: rearrangeOne_def Pair Let_def g foldl_replaceRef_frame)
qed

lemma foldl_rearrangeOne_body:
  "set (body (fst st)) \<subseteq> set (body (fst (foldl (rearrangeOne E) st refs)))"
proof (induction refs arbitrary: st)
  case Nil
  show ?case by simp
next
  case (Cons r refs)
  obtain pr ex where st: "st = (pr, ex)" by (cases st)
  show ?case using Cons.IH [of "rearrangeOne E st r"] rearrangeOne_body [of pr E ex r]
    by (auto simp: st)
qed

lemma normalizeExports_body: "set (body root) \<subseteq> set (body (fst (normalizeExports E root col)))"
  using foldl_rearrangeOne_body [of "(root, objEntries (exports col))" E "exportRefs col"]
  by (simp add: normalizeExports_frame rearrangeExports_def)

section \<open>The empty request\<close>

text \<open>
  Claim C2, as the code has it: with an empty list of requested exports the pass returns,
  publishes no imports, no exports and no re-exports, leaves a program without top-level
  statements in which every statement of the input is removed, and reports as dead
  \<open>Object.keys\<close> of the export map after \<open>rearrangeExports\<close>.  The keys of that map, in the order
  of creation, are the collected export names as \<open>Object.keys\<close> gives them, followed by every
  name with more than one internal reference site that is not among them and is not
  \<open>__proto__\<close>; \<open>Object.keys\<close> lists the array indices among them first.
\<close>

theorem fast_path_empty_request:
  "\<exists>r. shakerPlugin E (opts\<lparr>onlyExports := []\<rparr>) root col = Inr r
      \<and> outImports r = [] \<and> outExports r = [] \<and> outReexports r = []
      \<and> deadExports r
          = keyOrder (rearrangedNames (keyOrder (map fst (exports col))) (exportRefs col))
      \<and> set (deadExports r)
          = fst ` set (exports col)
            \<union> {k. k \<noteq> ''__proto__''
                   \<and> (\<exists>rs. (k, rs) \<in> set (exportRefs col) \<and> 1 < length rs)}
      \<and> body (outProgram r) = []
      \<and> set (map stmtPath (body root)) \<subseteq> set (removed (outProgram r))"
proof -
  obtain pr exps where n: "normalizeExports E root col = (pr, exps)"
    by (cases "normalizeExports E root col")
  have names: "map fst exps = rearrangedNames (keyOrder (map fst (exports col))) (exportRefs col)"
    using normalizeExports_names [of E root col] by (simp add: n objKeys_keyOrder)
  have keys: "fst ` set exps = fst ` set (exports col)
            \<union> {k. k \<noteq> ''__proto__''
                   \<and> (\<exists>rs. (k, rs) \<in> set (exportRefs col) \<and> 1 < length rs)}"
    using normalizeExports_keys [of E root col] by (simp add: n)
  have sub: "set (body root) \<subseteq> set (body pr)"
    using normalizeExports_body [of root E col] by (simp add: n)
  have rm: "set (map stmtPath (body root)) \<subseteq> set (removed (removeBody pr))"
    using sub by (auto simp: removeBody_removed)
  have d: "objKeys exps
             = keyOrder (rearrangedNames (keyOrder (map fst (exports col))) (exportRefs col))"
    by (simp add: objKeys_keyOrder names)
  have s: "set (objKeys exps) = fst ` set (exports col)
            \<union> {k. k \<noteq> ''__proto__''
                   \<and> (\<exists>rs. (k, rs) \<in> set (exportRefs col) \<and> 1 < length rs)}"
    by (simp only: set_objKeys keys)
  show ?thesis
    using d s rm by (simp add: shakerPlugin_def n requestedSet_def removeBody_body)
qed

text \<open>The definitions that evaluate a run on an explicit module.\<close>

lemmas run_defs = shakerPlugin_def normalizeExports_def rearrangeExports_def rearrangeOne_def
      plainExt_def request_def oneStatement_def emptyProgram_def requestedSet_def
      Let_def replaceRef_def objEntries_def objKeys_def objValues_def ownOrder_def
      arrayIndex_def assignProp_def

text \<open>
  Claim C2 as stated fails: a module that reads \<open>exports.foo\<close> twice and assigns nothing has no
  export name, and the empty request reports \<open>foo\<close> as dead.
\<close>

theorem fast_path_dead_names_counterexample:
  "map_sum id deadExports (shakerPlugin (plainExt [] [] [] []) (request []) oneStatement readTwice)
     = Inr [''foo'']
   \<and> map fst (exports readTwice) = []"
  by (simp add: run_defs readTwice_def)

section \<open>The reserved name\<close>

lemma requestedSet_set:
  "set (requestedSet exps only)
     = (if map_of exps ''__linariaPreval'' = None then set only - {''__linariaPreval''}
        else set only)"
  by (auto simp: requestedSet_def)

lemma normalizeExports_has:
  "(map_of (snd (normalizeExports E root col)) k = None)
     = (k \<notin> fst ` set (exports col)
        \<and> (k = ''__proto__'' \<or> (\<forall>rs. (k, rs) \<in> set (exportRefs col) \<longrightarrow> length rs \<le> 1)))"
proof -
  have "(map_of (snd (normalizeExports E root col)) k = None)
          = (k \<notin> fst ` set (snd (normalizeExports E root col)))"
    by (rule map_of_eq_None_iff)
  also have "\<dots> = (k \<notin> fst ` set (exports col)
        \<and> (k = ''__proto__'' \<or> (\<forall>rs. (k, rs) \<in> set (exportRefs col) \<longrightarrow> length rs \<le> 1)))"
    unfolding normalizeExports_keys by auto
  finally show ?thesis .
qed

text \<open>
  Claim C10, as the code has it.  The name \<open>__linariaPreval\<close> is taken out of the requested set
  before the test for the empty request exactly when the export map after \<open>rearrangeExports\<close>
  has no entry of this name, that is, when the module does not export the name and does not
  refer to \<open>exports.__linariaPreval\<close> at more than one place; nothing else is taken out.  A
  request that consists of this name only then takes the fast path: the pass returns, no
  imports, exports or re-exports are published, the keys of the export map after
  \<open>rearrangeExports\<close> are reported dead (every collected export name is among them), the body
  is empty and every statement of the input is removed.
\<close>

theorem preval_only_request:
  assumes "''__linariaPreval'' \<notin> fst ` set (exports col)"
    and "\<forall>rs. (''__linariaPreval'', rs) \<in> set (exportRefs col) \<longrightarrow> length rs \<le> 1"
  shows "set (requestedSet (snd (normalizeExports E root col)) (onlyExports opts))
           = set (onlyExports opts) - {''__linariaPreval''}
         \<and> (set (onlyExports opts) = {''__linariaPreval''} \<longrightarrow>
              (\<exists>r. shakerPlugin E opts root col = Inr r
                 \<and> outImports r = [] \<and> outExports r = [] \<and> outReexports r = []
                 \<and> fst ` set (exports col) \<subseteq> set (deadExports r)
                 \<and> deadExports r
                     = keyOrder (rearrangedNames (keyOrder (map fst (exports col)))
                         (exportRefs col))
                 \<and> body (outProgram r) = []
                 \<and> set (map stmtPath (body root)) \<subseteq> set (removed (outProgram r))))"
proof -
  obtain pr exps where n: "normalizeExports E root col = (pr, exps)"
    by (cases "normalizeExports E root col")
  from assms have none: "map_of exps ''__linariaPreval'' = None"
    using normalizeExports_has [of E root col "''__linariaPreval''"] by (simp add: n)
  have s: "set (requestedSet exps (onlyExports opts))
             = set (onlyExports opts) - {''__linariaPreval''}"
    by (simp add: requestedSet_set none)
  have names: "map fst exps = rearrangedNames (keyOrder (map fst (exports col))) (exportRefs col)"
    using normalizeExports_names [of E root col] by (simp add: n objKeys_keyOrder)
  have d: "objKeys exps
             = keyOrder (rearrangedNames (keyOrder (map fst (exports col))) (exportRefs col))"
    by (simp add: objKeys_keyOrder names)
  have "fst ` set (exports col) \<subseteq> fst ` set exps"
    using normalizeExports_keys [of E root col] by (simp add: n)
  then have keys: "fst ` set (exports col) \<subseteq> set (objKeys exps)"
    by (simp only: set_objKeys)
  have sub: "set (body root) \<subseteq> set (body pr)"
    using normalizeExports_body [of root E col] by (simp add: n)
  have rm: "set (map stmtPath (body root)) \<subseteq> set (removed (removeBody pr))"
    using sub by (auto simp: removeBody_removed)
  show ?thesis
  proof (intro conjI impI)
    show "set (requestedSet (snd (normalizeExports E root col)) (onlyExports opts))
            = set (onlyExports opts) - {''__linariaPreval''}"
      using s by (simp add: n)
  next
    assume only: "set (onlyExports opts) = {''__linariaPreval''}"
    then have "requestedSet exps (onlyExports opts) = []"
      using s by simp
    then show "\<exists>r. shakerPlugin E opts root col = Inr r
                 \<and> outImports r = [] \<and> outExports r = [] \<and> outReexports r = []
                 \<and> fst ` set (exports col) \<subseteq> set (deadExports r)
                 \<and> deadExports r
                     = keyOrder (rearrangedNames (keyOrder (map fst (exports col)))
                         (exportRefs col))
                 \<and> body (outProgram r) = []
                 \<and> set (map stmtPath (body root)) \<subseteq> set (removed (outProgram r))"
      using keys rm d by (simp add: shakerPlugin_def n removeBody_body)
  qed
qed

theorem preval_only_request_witness:
  "''__linariaPreval'' \<notin> fst ` set (exports onlyA)
   \<and> set (onlyExports (request [''__linariaPreval''])) = {''__linariaPreval''}
   \<and> map_sum id deadExports
        (shakerPlugin (plainExt [] [] [] []) (request [''__linariaPreval'']) oneStatement onlyA)
       = Inr [''a'']"
proof -
  have h: "''__linariaPreval'' \<notin> fst ` set (exports onlyA)"
    by (simp add: onlyA_def)
  have h2: "\<forall>rs. (''__linariaPreval'', rs) \<in> set (exportRefs onlyA) \<longrightarrow> length rs \<le> 1"
    by (simp add: onlyA_def)
  have n: "keyOrder (rearrangedNames (keyOrder (map fst (exports onlyA))) (exportRefs onlyA))
             = [''a'']"
    by (simp add: keyOrder_def ownOrder_def arrayIndex_def rearrangedNames_def onlyA_def)
  have o: "set (onlyExports (request [''__linariaPreval''])) = {''__linariaPreval''}"
    by (simp add: request_def)
  from preval_only_request [OF h h2, where opts = "request [''__linariaPreval'']"
      and E = "plainExt [] [] [] []" and root = oneStatement] o
  obtain r where r: "shakerPlugin (plainExt [] [] [] []) (request [''__linariaPreval''])
                       oneStatement onlyA = Inr r"
    and d: "deadExports r
              = keyOrder (rearrangedNames (keyOrder (map fst (exports onlyA))) (exportRefs onlyA))"
    by blast
  have "map_sum id deadExports
          (shakerPlugin (plainExt [] [] [] []) (request [''__linariaPreval'']) oneStatement onlyA)
        = Inr [''a'']"
    by (simp only: r d n map_sum.simps)
  with h o show ?thesis by (intro conjI)
qed

section \<open>Termination of the eliminator\<close>

lemma elimLoop_stop:
  "\<not> (changed st \<and> length (deleted st) < length fd) \<Longrightarrow> elimLoop E fd st = st"
  by (subst elimLoop.simps) auto

lemma elimLoop_continue:
  "changed st \<and> length (deleted st) < length fd
     \<Longrightarrow> elimLoop E fd st = elimLoop E fd (elimPass E fd st)"
  by (subst elimLoop.simps) auto

lemma passCount_stop:
  "\<not> (changed st \<and> length (deleted st) < length fd) \<Longrightarrow> passCount E fd st = 0"
  by (subst passCount.simps) auto

lemma passCount_continue:
  "changed st \<and> length (deleted st) < length fd
     \<Longrightarrow> passCount E fd st = Suc (passCount E fd (elimPass E fd st))"
  by (subst passCount.simps) auto

lemma passCount_bound: "passCount E fd st \<le> length fd - length (deleted st)"
proof (induction E fd st rule: passCount.induct)
  case (1 E fd st)
  show ?case
  proof (cases "changed st \<and> length (deleted st) < length fd")
    case False
    then show ?thesis by (simp add: passCount_stop)
  next
    case True
    note IH = "1.IH" [OF True]
    show ?thesis
    proof (cases "changed (elimPass E fd st)")
      case c: True
      have "length (deleted st) < length (deleted (elimPass E fd st))"
        by (rule elimPass_progress [OF c])
      with IH True
      have "Suc (passCount E fd (elimPass E fd st)) \<le> length fd - length (deleted st)"
        by arith
      then show ?thesis by (simp add: passCount_continue [OF True])
    next
      case c: False
      then have "passCount E fd (elimPass E fd st) = 0"
        by (simp add: passCount_stop)
      moreover from True have "Suc 0 \<le> length fd - length (deleted st)"
        by arith
      ultimately show ?thesis by (simp add: passCount_continue [OF True])
    qed
  qed
qed

lemma elimLoop_passes: "elimLoop E fd st = ((elimPass E fd) ^^ passCount E fd st) st"
proof (induction E fd st rule: elimLoop.induct)
  case (1 E fd st)
  show ?case
  proof (cases "changed st \<and> length (deleted st) < length fd")
    case False
    then show ?thesis
      by (simp add: passCount_stop elimLoop_stop)
  next
    case True
    have "elimLoop E fd st = elimLoop E fd (elimPass E fd st)"
      by (rule elimLoop_continue [OF True])
    also have "\<dots> = ((elimPass E fd) ^^ passCount E fd (elimPass E fd st)) (elimPass E fd st)"
      by (rule "1.IH" [OF True])
    also have "\<dots> = ((elimPass E fd) ^^ passCount E fd st) st"
      by (simp add: passCount_continue [OF True] funpow_swap1)
    finally show ?thesis .
  qed
qed

lemma elimLoop_exit:
  "\<not> (changed (elimLoop E fd st) \<and> length (deleted (elimLoop E fd st)) < length fd)"
proof (induction E fd st rule: elimLoop.induct)
  case (1 E fd st)
  show ?case
  proof (cases "changed st \<and> length (deleted st) < length fd")
    case False
    then show ?thesis by (simp add: elimLoop_stop)
  next
    case True
    then show ?thesis using "1.IH" [OF True] by (simp add: elimLoop_continue [OF True])
  qed
qed

lemma elimStep_deleted_inv:
  assumes "distinct (deleted st)" and "set (deleted st) \<subseteq> F" and "p \<in> F"
  shows "distinct (deleted (elimStep E st p)) \<and> set (deleted (elimStep E st p)) \<subseteq> F"
  using elimStep_deleted_cases [of E st p] assms by auto

lemma foldl_elimStep_deleted_inv:
  assumes "distinct (deleted st)" and "set (deleted st) \<subseteq> F" and "set xs \<subseteq> F"
  shows "distinct (deleted (foldl (elimStep E) st xs))
         \<and> set (deleted (foldl (elimStep E) st xs)) \<subseteq> F"
  using assms
proof (induction xs arbitrary: st)
  case Nil
  then show ?case by simp
next
  case (Cons x xs)
  have "distinct (deleted (elimStep E st x)) \<and> set (deleted (elimStep E st x)) \<subseteq> F"
    using elimStep_deleted_inv [of st F x E] Cons.prems by simp
  then show ?case using Cons.IH [of "elimStep E st x"] Cons.prems by simp
qed

lemma elimPass_deleted_inv:
  assumes "distinct (deleted st)" and "set (deleted st) \<subseteq> set fd"
  shows "distinct (deleted (elimPass E fd st)) \<and> set (deleted (elimPass E fd st)) \<subseteq> set fd"
  using foldl_elimStep_deleted_inv [of "st\<lparr>changed := False\<rparr>" "set fd" fd E] assms
  by (simp add: elimPass_def)

lemma elimLoop_deleted_inv:
  assumes "distinct (deleted st)" and "set (deleted st) \<subseteq> set fd"
  shows "distinct (deleted (elimLoop E fd st)) \<and> set (deleted (elimLoop E fd st)) \<subseteq> set fd"
  using assms
proof (induction E fd st rule: elimLoop.induct)
  case (1 E fd st)
  show ?case
  proof (cases "changed st \<and> length (deleted st) < length fd")
    case False
    then show ?thesis using "1.prems" by (simp add: elimLoop_stop)
  next
    case True
    have "distinct (deleted (elimPass E fd st)) \<and> set (deleted (elimPass E fd st)) \<subseteq> set fd"
      using elimPass_deleted_inv "1.prems" by blast
    then show ?thesis
      using "1.IH" [OF True] by (simp add: elimLoop_continue [OF True])
  qed
qed

text \<open>
  Claim C5: the loop of the eliminator is a total function; started as the plugin starts it,
  it returns the state reached after \<open>passCount\<close> executions of its body, a body is
  executed only while the previous one has set \<open>changed\<close> and fewer paths are deleted than
  the worklist is long, the number of executions is at most the length of the worklist, and
  no path is recorded as deleted twice or without being on the worklist.
\<close>

theorem eliminator_terminates:
  "elimLoop E forDeleting \<lparr>prog = pr, deleted = [], dereferenced = [], changed = True\<rparr>
     = ((elimPass E forDeleting)
          ^^ passCount E forDeleting
               \<lparr>prog = pr, deleted = [], dereferenced = [], changed = True\<rparr>)
         \<lparr>prog = pr, deleted = [], dereferenced = [], changed = True\<rparr>
   \<and> passCount E forDeleting \<lparr>prog = pr, deleted = [], dereferenced = [], changed = True\<rparr>
       \<le> length forDeleting
   \<and> distinct (deleted (elimLoop E forDeleting
                  \<lparr>prog = pr, deleted = [], dereferenced = [], changed = True\<rparr>))
   \<and> set (deleted (elimLoop E forDeleting
                  \<lparr>prog = pr, deleted = [], dereferenced = [], changed = True\<rparr>))
       \<subseteq> set forDeleting"
  using passCount_bound [of E forDeleting
          "\<lparr>prog = pr, deleted = [], dereferenced = [], changed = True\<rparr>"]
    elimLoop_deleted_inv [of "\<lparr>prog = pr, deleted = [], dereferenced = [], changed = True\<rparr>"
          forDeleting E]
    elimLoop_passes [of E forDeleting
          "\<lparr>prog = pr, deleted = [], dereferenced = [], changed = True\<rparr>"]
  by simp

lemmas shake_defs = shake_def interopHazard_def isAllExportsFound_def computeAlive_def
  aliveStep_def aliveReexport_def nameOrEmpty_def viewOf_def setAdd_def policyOf_def
  worklist_def buildForDeleting_def deadExportPaths_def sideEffectPaths_def
  deadImportsPaths_def aliveExportsOf_def stripDangerous_def eliminate_def eliminated_def
  startState_def restoreDereferenced_def report_def reportStep_def isRemoved_def
  withoutRemovedImports_def withoutRemovedReexports_def markAssignmentLeft_def
  keepEverything_def elimLoop_stop

text \<open>
  Claim C10 as stated fails: a module that reads \<open>exports.__linariaPreval\<close> twice and exports
  nothing gets the entry \<open>__linariaPreval\<close> from \<open>rearrangeExports\<close>; a request of this name
  alone then keeps the name, the fast path is not taken, no statement is removed and the name
  is published as an export.
\<close>

theorem preval_read_twice_counterexample:
  "''__linariaPreval'' \<notin> fst ` set (exports prevalReadTwice)
   \<and> requestedSet (snd (normalizeExports (plainExt [] [] [] []) oneStatement prevalReadTwice))
        (onlyExports (request [''__linariaPreval''])) = [''__linariaPreval'']
   \<and> map_sum id outExports
        (shakerPlugin (plainExt [] [] [] []) (request [''__linariaPreval'']) oneStatement
           prevalReadTwice) = Inr [(''__linariaPreval'', 102)]
   \<and> map_sum id (body \<circ> outProgram)
        (shakerPlugin (plainExt [] [] [] []) (request [''__linariaPreval'']) oneStatement
           prevalReadTwice)
       = Inr [VarDecl 100 ''___linariaPreval'', Original 1,
              AssignExport 101 ''__linariaPreval'' ''___linariaPreval'' 102]
   \<and> map_sum id (removed \<circ> outProgram)
        (shakerPlugin (plainExt [] [] [] []) (request [''__linariaPreval'']) oneStatement
           prevalReadTwice) = Inr []"
  by (simp add: run_defs shake_defs prevalReadTwice_def usedNames_def identifierNames_def
      longest_def freshName_def)

section \<open>The default export of a module that is not an ES module\<close>

lemma normalizeExports_keeps_keys:
  "set (map fst (exports col)) \<subseteq> set (map fst (snd (normalizeExports E root col)))"
  using normalizeExports_keys [of E root col] by auto

lemma exported_after_normalize:
  assumes "map_of (exports col) k \<noteq> None"
  shows "map_of (snd (normalizeExports E root col)) k \<noteq> None"
proof -
  from assms have "k \<in> set (map fst (exports col))"
    by (simp add: map_of_eq_None_iff)
  then have "k \<in> set (map fst (snd (normalizeExports E root col)))"
    using normalizeExports_keeps_keys [of col E root] by blast
  then show ?thesis by (simp add: map_of_eq_None_iff)
qed

text \<open>
  Claim C1: when \<open>default\<close> is among the requested names, the module exports \<open>default\<close> and
  is not confirmed to be an ES module, the pass returns without deleting anything, whatever
  else is requested: the collected imports and re-exports are published as they are, the
  export map is published whole and holds every collected export name, no export is dead,
  no path is removed and every statement of the input is still in the body.
\<close>

theorem default_interop_hazard:
  assumes "''default'' \<in> set (onlyExports opts)"
    and "map_of (exports col) ''default'' \<noteq> None"
    and "\<not> isEsModule col"
  shows "\<exists>r. shakerPlugin E opts root col = Inr r
           \<and> outImports r = importRecs col
           \<and> outReexports r = reexports col
           \<and> outExports r = snd (normalizeExports E root col)
           \<and> set (map fst (exports col)) \<subseteq> set (map fst (outExports r))
           \<and> deadExports r = []
           \<and> outProgram r = fst (normalizeExports E root col)
           \<and> removed (outProgram r) = removed root
           \<and> set (body root) \<subseteq> set (body (outProgram r))"
proof -
  obtain pr exps where n: "normalizeExports E root col = (pr, exps)"
    by (cases "normalizeExports E root col")
  have d: "map_of exps ''default'' \<noteq> None"
    using exported_after_normalize [OF assms(2), of E root] by (simp add: n)
  have req: "''default'' \<in> set (requestedSet exps (onlyExports opts))"
    using assms(1) by (simp add: requestedSet_set)
  then have ne: "length (requestedSet exps (onlyExports opts)) \<noteq> 0"
    by auto
  have keys: "set (map fst (exports col)) \<subseteq> set (map fst exps)"
    using normalizeExports_keeps_keys [of col E root] by (simp add: n)
  have sub: "set (body root) \<subseteq> set (body pr)"
    using normalizeExports_body [of root E col] by (simp add: n)
  have rm: "removed pr = removed root"
    using normalizeExports_removed [of E root col] by (simp add: n)
  have "shakerPlugin E opts root col = Inr (keepEverything pr col exps)"
    using ne req d assms(3) by (simp add: shakerPlugin_def n shake_def interopHazard_def)
  then show ?thesis
    using keys sub rm by (simp add: keepEverything_def n)
qed

theorem default_interop_hazard_witness:
  "''default'' \<in> set (onlyExports (request [''default'', ''missing'']))
   \<and> map_of (exports plainDefault) ''default'' \<noteq> None
   \<and> \<not> isEsModule plainDefault
   \<and> map_sum id deadExports
        (shakerPlugin (plainExt [] [] [] []) (request [''default'', ''missing''])
           oneStatement plainDefault) = Inr []"
proof -
  have a: "''default'' \<in> set (onlyExports (request [''default'', ''missing'']))"
    by (simp add: request_def)
  have b: "map_of (exports plainDefault) ''default'' \<noteq> None"
    by (simp add: plainDefault_def)
  have c: "\<not> isEsModule plainDefault"
    by (simp add: plainDefault_def)
  from default_interop_hazard [OF a b c, of "plainExt [] [] [] []" oneStatement]
  obtain r where r: "shakerPlugin (plainExt [] [] [] []) (request [''default'', ''missing''])
                       oneStatement plainDefault = Inr r"
    and d: "deadExports r = []"
    by blast
  have "map_sum id deadExports
          (shakerPlugin (plainExt [] [] [] []) (request [''default'', ''missing''])
             oneStatement plainDefault) = Inr []"
    by (simp only: r d map_sum.simps)
  with a b c show ?thesis by (intro conjI)
qed

section \<open>The returns that keep everything\<close>

lemma multiply_Cons:
  "multiply (x # refs) = (if 1 < length (snd x) then x # multiply refs else multiply refs)"
  by (simp add: multiply_def)

lemma multiply_empty: "(multiply refs = []) = list_all (\<lambda>e. length (snd e) \<le> 1) refs"
  by (induction refs) (auto simp: multiply_def)

lemma foldl_rearrangeOne_shape:
  "\<exists>D A. body (fst (foldl (rearrangeOne E) st refs)) = D @ body (fst st) @ A
     \<and> list_all isVarDecl D \<and> list_all isAssignExport A
     \<and> length D = length (multiply refs) \<and> map assignedName A = map fst (multiply refs)"
proof (induction refs arbitrary: st)
  case Nil
  show ?case by (simp add: multiply_def)
next
  case (Cons x refs)
  obtain name rs where x: "x = (name, rs)" by (cases x)
  obtain pr ex where st: "st = (pr, ex)" by (cases st)
  from Cons.IH [of "rearrangeOne E st x"] obtain D A where
    b: "body (fst (foldl (rearrangeOne E) (rearrangeOne E st x) refs))
          = D @ body (fst (rearrangeOne E st x)) @ A"
    and s: "list_all isVarDecl D" "list_all isAssignExport A"
    and l: "length D = length (multiply refs)" "map assignedName A = map fst (multiply refs)"
    by blast
  show ?case
  proof (cases "1 < length rs")
    case False
    then have "rearrangeOne E st x = st"
      by (simp add: x st rearrangeOne_untouched)
    with b s l False show ?thesis by (auto simp: multiply_Cons x)
  next
    case True
    obtain uid sc where g: "generateUid E pr name = (uid, sc)"
      by (cases "generateUid E pr name")
    let ?d = "VarDecl (nextPath pr) uid"
    let ?a = "AssignExport (nextPath pr + 1) name uid (nextPath pr + 2)"
    have "body (fst (rearrangeOne E st x)) = ?d # body pr @ [?a]"
      using rearrangeOne_rewrites(1) [OF True g, of ex] by (simp add: x st)
    with b have "body (fst (foldl (rearrangeOne E) st (x # refs)))
                   = (D @ [?d]) @ body (fst st) @ (?a # A)"
      by (simp add: st)
    moreover have "list_all isVarDecl (D @ [?d])" "list_all isAssignExport (?a # A)"
      using s by simp_all
    moreover have "length (D @ [?d]) = length (multiply (x # refs))"
      "map assignedName (?a # A) = map fst (multiply (x # refs))"
      using l True by (simp_all add: multiply_Cons x)
    ultimately show ?thesis by blast
  qed
qed

lemma normalizeExports_shape:
  "\<exists>D A. body (fst (normalizeExports E root col)) = D @ body root @ A
     \<and> list_all isVarDecl D \<and> list_all isAssignExport A
     \<and> length D = length (multiply (exportRefs col))
     \<and> map assignedName A = map fst (multiply (exportRefs col))"
  using foldl_rearrangeOne_shape [of E "(root, objEntries (exports col))" "exportRefs col"]
  by (simp add: normalizeExports_frame rearrangeExports_def)

lemma normalizeExports_single:
  assumes "list_all (\<lambda>e. length (snd e) \<le> 1) (exportRefs col)"
  shows "body (fst (normalizeExports E root col)) = body root
         \<and> nodes (fst (normalizeExports E root col)) = nodes root
         \<and> nextPath (fst (normalizeExports E root col)) = nextPath root
         \<and> snd (normalizeExports E root col) = objEntries (exports col)"
  by (simp add: normalizeExports_frame normalizeExports_snd rearrangeExports_single [OF assms])

lemma normalizeExports_body_same:
  "(body (fst (normalizeExports E root col)) = body root)
     = list_all (\<lambda>e. length (snd e) \<le> 1) (exportRefs col)"
proof
  assume e: "body (fst (normalizeExports E root col)) = body root"
  from normalizeExports_shape [of E root col] obtain D A where
    b: "body (fst (normalizeExports E root col)) = D @ body root @ A"
    and l: "length D = length (multiply (exportRefs col))"
    by blast
  from b e have "body root = D @ body root @ A" by simp
  then have "length (body root) = length (D @ body root @ A)" by simp
  then have "length (body root) = length D + length (body root) + length A"
    by simp
  then have "length D = 0" by simp
  with l have "multiply (exportRefs col) = []" by simp
  then show "list_all (\<lambda>e. length (snd e) \<le> 1) (exportRefs col)"
    by (simp add: multiply_empty)
next
  assume "list_all (\<lambda>e. length (snd e) \<le> 1) (exportRefs col)"
  then show "body (fst (normalizeExports E root col)) = body root"
    by (simp add: normalizeExports_single)
qed

lemma shakerPlugin_aborts:
  assumes "abortsShaking E opts root col"
  shows "shakerPlugin E opts root col
           = Inr (keepEverything (fst (normalizeExports E root col)) col
                    (snd (normalizeExports E root col)))"
proof -
  obtain pr exps where n: "normalizeExports E root col = (pr, exps)"
    by (cases "normalizeExports E root col")
  from assms show ?thesis
    by (auto simp: abortsShaking_def requestedNames_def shakerPlugin_def n shake_def Let_def)
qed

text \<open>
  Claim C4, as the code has it: on both returns that keep everything (the requested \<open>default\<close>
  export of a module that is not an ES module, and the policy \<open>skip-shaking\<close>) the pass
  publishes the program that \<open>rearrangeExports\<close> and the marking of exported assignments
  left.  No path is removed.  The body is the body of the input between one declaration for
  every name with more than one internal reference site, in front, and one assignment to the
  export of every such name, behind, in the order of the names.  So the body is the body of the
  input exactly when no name has more than one internal reference site, and then the nodes
  are those of the input as well.
\<close>

theorem abort_keeps_normalized_program:
  assumes "abortsShaking E opts root col"
  shows "\<exists>r. shakerPlugin E opts root col = Inr r
           \<and> outProgram r = fst (normalizeExports E root col)
           \<and> removed (outProgram r) = removed root
           \<and> (\<exists>D A. body (outProgram r) = D @ body root @ A
                 \<and> list_all isVarDecl D \<and> list_all isAssignExport A
                 \<and> length D = length (multiply (exportRefs col))
                 \<and> map assignedName A = map fst (multiply (exportRefs col)))
           \<and> (body (outProgram r) = body root)
               = list_all (\<lambda>e. length (snd e) \<le> 1) (exportRefs col)
           \<and> (list_all (\<lambda>e. length (snd e) \<le> 1) (exportRefs col)
                \<longrightarrow> nodes (outProgram r) = nodes root)"
  using shakerPlugin_aborts [OF assms] normalizeExports_removed [of E root col]
    normalizeExports_shape [of E root col] normalizeExports_single [of col E root]
    normalizeExports_body_same [of E root col]
  by (simp add: keepEverything_def)


text \<open>
  Claim C4 as stated fails: a module that reads \<open>exports.default\<close> twice keeps, after the
  return for the \<open>default\<close> export, the declaration and the assignment that
  \<open>rearrangeExports\<close> inserted, and the identifier it put at the two reference sites.
\<close>

theorem abort_changes_tree_counterexample:
  "abortsShaking (plainExt [] [] [] []) (request [''default'']) oneStatement defaultReadTwice
   \<and> map_sum id (body \<circ> outProgram)
        (shakerPlugin (plainExt [] [] [] []) (request [''default'']) oneStatement defaultReadTwice)
       = Inr [VarDecl 100 ''_default'', Original 1, AssignExport 101 ''default'' ''_default'' 102]
   \<and> map_sum id (nodes \<circ> outProgram)
        (shakerPlugin (plainExt [] [] [] []) (request [''default'']) oneStatement defaultReadTwice)
       = Inr [(102, Identifier ''_default''), (11, Identifier ''_default''),
              (10, Identifier ''_default'')]
   \<and> body oneStatement = [Original 1] \<and> nodes oneStatement = []"
  by (simp add: abortsShaking_def requestedNames_def run_defs shake_defs defaultReadTwice_def
      usedNames_def identifierNames_def longest_def freshName_def)

theorem abort_keeps_normalized_program_witness:
  "abortsShaking (plainExt [] [] [] []) (request [''default'', ''missing'']) oneStatement
     plainDefault
   \<and> list_all (\<lambda>e. length (snd e) \<le> 1) (exportRefs plainDefault)
   \<and> map_sum id (body \<circ> outProgram)
        (shakerPlugin (plainExt [] [] [] []) (request [''default'', ''missing'']) oneStatement
           plainDefault) = Inr (body oneStatement)"
proof -
  have a: "abortsShaking (plainExt [] [] [] []) (request [''default'', ''missing'']) oneStatement
             plainDefault"
    by (simp add: abortsShaking_def requestedNames_def run_defs shake_defs plainDefault_def)
  have l: "list_all (\<lambda>e. length (snd e) \<le> 1) (exportRefs plainDefault)"
    by (simp add: plainDefault_def)
  from abort_keeps_normalized_program [OF a] l
  obtain r where r: "shakerPlugin (plainExt [] [] [] []) (request [''default'', ''missing''])
                       oneStatement plainDefault = Inr r"
    and d: "body (outProgram r) = body oneStatement"
    by blast
  have "map_sum id (body \<circ> outProgram)
          (shakerPlugin (plainExt [] [] [] []) (request [''default'', ''missing'']) oneStatement
             plainDefault) = Inr (body oneStatement)"
    by (simp only: r d map_sum.simps comp_apply)
  with a l show ?thesis by (intro conjI)
qed

section \<open>The alive set\<close>

lemma set_setAdd: "set (setAdd x xs) = insert x (set xs)"
  by (auto simp: setAdd_def)

lemma distinct_setAdd: "distinct xs \<Longrightarrow> distinct (setAdd x xs)"
  by (simp add: setAdd_def)

lemma aliveStep_set:
  "set (aliveStep pr S imps acc e)
     = set acc \<union> (if fst e \<in> set S \<or> nameOrEmpty pr (snd e) \<in> set imps then {snd e} else {})"
  by (cases e) (auto simp: aliveStep_def set_setAdd list_ex_iff)

lemma foldl_aliveStep_set:
  "set (foldl (aliveStep pr S imps) acc exps)
     = set acc \<union> snd ` {e \<in> set exps. fst e \<in> set S \<or> nameOrEmpty pr (snd e) \<in> set imps}"
proof (induction exps arbitrary: acc)
  case Nil
  show ?case by simp
next
  case (Cons e exps)
  have "set (foldl (aliveStep pr S imps) (aliveStep pr S imps acc e) exps)
          = set (aliveStep pr S imps acc e)
            \<union> snd ` {e \<in> set exps. fst e \<in> set S \<or> nameOrEmpty pr (snd e) \<in> set imps}"
    by (rule Cons.IH)
  also have "set (aliveStep pr S imps acc e)
     = set acc \<union> (if fst e \<in> set S \<or> nameOrEmpty pr (snd e) \<in> set imps then {snd e} else {})"
    by (rule aliveStep_set)
  finally show ?case by auto
qed

lemma aliveReexport_set:
  "set (aliveReexport S acc e) = set acc \<union> (if exported e \<in> set S then {reLocal e} else {})"
  by (simp add: aliveReexport_def set_setAdd)

lemma foldl_aliveReexport_set:
  "set (foldl (aliveReexport S) acc rex)
     = set acc \<union> reLocal ` {e \<in> set rex. exported e \<in> set S}"
proof (induction rex arbitrary: acc)
  case Nil
  show ?case by simp
next
  case (Cons e rex)
  have "set (foldl (aliveReexport S) (aliveReexport S acc e) rex)
          = set (aliveReexport S acc e) \<union> reLocal ` {e \<in> set rex. exported e \<in> set S}"
    by (rule Cons.IH)
  also have "set (aliveReexport S acc e)
               = set acc \<union> (if exported e \<in> set S then {reLocal e} else {})"
    by (rule aliveReexport_set)
  finally show ?case by auto
qed

lemma foldl_aliveStep_distinct:
  "distinct acc \<Longrightarrow> distinct (foldl (aliveStep pr S imps) acc exps)"
proof (induction exps arbitrary: acc)
  case Nil
  then show ?case by simp
next
  case (Cons e exps)
  have "distinct (aliveStep pr S imps acc e)"
    using Cons.prems by (cases e) (simp add: aliveStep_def distinct_setAdd)
  then show ?case using Cons.IH by simp
qed

lemma foldl_aliveReexport_distinct:
  "distinct acc \<Longrightarrow> distinct (foldl (aliveReexport S) acc rex)"
proof (induction rex arbitrary: acc)
  case Nil
  then show ?case by simp
next
  case (Cons e rex)
  have "distinct (aliveReexport S acc e)"
    using Cons.prems by (simp add: aliveReexport_def distinct_setAdd)
  then show ?case using Cons.IH by simp
qed

lemma computeAlive_distinct: "distinct (computeAlive pr S col exps)"
  by (simp add: computeAlive_def foldl_aliveReexport_distinct foldl_aliveStep_distinct)

text \<open>
  The alive set: the nodes of the exports with a requested name or with a node named like an
  imported name, and the nodes of the re-exports with a requested name.  The third test of
  lines 240--246 adds a node that the set already has.
\<close>

lemma computeAlive_set:
  "set (computeAlive pr S col exps)
     = snd ` {e \<in> set exps. fst e \<in> set S
                 \<or> nameOrEmpty pr (snd e) \<in> set (map imported (importRecs col))}
       \<union> reLocal ` {e \<in> set (reexports col). exported e \<in> set S}"
  by (simp only: computeAlive_def foldl_aliveReexport_set foldl_aliveStep_set set_objEntries)
     simp

lemma computeAlive_matched:
  assumes "\<forall>e\<in>set exps. fst e \<in> set S
             \<or> nameOrEmpty pr (snd e) \<notin> set (map imported (importRecs col))"
  shows "set (computeAlive pr S col exps)
           = snd ` set (filter (\<lambda>e. fst e \<in> set S) (nameEntries exps col))"
proof -
  have "{e \<in> set exps. fst e \<in> set S
                 \<or> nameOrEmpty pr (snd e) \<in> set (map imported (importRecs col))}
          = {e \<in> set exps. fst e \<in> set S}"
    using assms by blast
  then have "set (computeAlive pr S col exps)
          = snd ` {e \<in> set exps. fst e \<in> set S}
            \<union> reLocal ` {e \<in> set (reexports col). exported e \<in> set S}"
    by (simp only: computeAlive_set)
  also have "\<dots> = snd ` set (filter (\<lambda>e. fst e \<in> set S) (nameEntries exps col))"
    by (auto simp: nameEntries_def image_iff) force+
  finally show ?thesis .
qed

lemma card_inter_full:
  assumes "distinct S"
  shows "(card (set S \<inter> K) = length S) = (set S \<subseteq> K)"
proof
  assume "card (set S \<inter> K) = length S"
  then have "card (set S \<inter> K) = card (set S)"
    using assms by (simp add: distinct_card)
  then have "set S \<inter> K = set S"
    by (intro card_subset_eq) auto
  then show "set S \<subseteq> K" by auto
next
  assume "set S \<subseteq> K"
  then have "set S \<inter> K = set S" by auto
  then show "card (set S \<inter> K) = length S"
    using assms by (simp add: distinct_card)
qed

lemma alive_eq_matched:
  assumes "\<forall>e\<in>set exps. fst e \<in> set S
             \<or> nameOrEmpty pr (snd e) \<notin> set (map imported (importRecs col))"
    and "distinct (map fst (filter (\<lambda>e. fst e \<in> set S) (nameEntries exps col)))"
    and "distinct (map snd (filter (\<lambda>e. fst e \<in> set S) (nameEntries exps col)))"
  shows "length (computeAlive pr S col exps) = card (set S \<inter> fst ` set (nameEntries exps col))"
proof -
  let ?M = "filter (\<lambda>e. fst e \<in> set S) (nameEntries exps col)"
  have "length (computeAlive pr S col exps) = card (set (computeAlive pr S col exps))"
    using computeAlive_distinct [of pr S col exps] by (simp add: distinct_card)
  also have "\<dots> = card (set (map snd ?M))"
    by (simp only: computeAlive_matched [OF assms(1)] set_map)
  also have "\<dots> = length ?M"
    using assms(3) by (simp only: distinct_card length_map)
  also have "\<dots> = card (set (map fst ?M))"
    using assms(2) by (simp only: distinct_card length_map)
  also have "set (map fst ?M) = set S \<inter> fst ` set (nameEntries exps col)"
    by auto
  finally show ?thesis .
qed

lemma found_iff_matched:
  assumes "\<forall>e\<in>set exps. fst e \<in> set S
             \<or> nameOrEmpty pr (snd e) \<notin> set (map imported (importRecs col))"
    and "distinct (map fst (filter (\<lambda>e. fst e \<in> set S) (nameEntries exps col)))"
    and "distinct (map snd (filter (\<lambda>e. fst e \<in> set S) (nameEntries exps col)))"
    and "distinct S"
  shows "isAllExportsFound pr S col exps = (set S \<subseteq> fst ` set (nameEntries exps col))"
  using alive_eq_matched [OF assms(1,2,3)] card_inter_full [OF assms(4)]
  by (simp add: isAllExportsFound_def)

section \<open>Unknown exports\<close>

lemma requestedSet_distinct: "distinct (requestedSet exps only)"
  by (simp add: requestedSet_def distinct_removeAll)

lemma requestedNames_distinct: "distinct (requestedNames E opts root col)"
  by (simp add: requestedNames_def distinct_removeAll requestedSet_distinct)




lemma unmatched_iff:
  "(unmatchedNames E opts root col \<noteq> [])
     = (\<not> set (requestedNames E opts root col)
           \<subseteq> fst ` set (nameEntries (snd (normalizeExports E root col)) col))"
  by (auto simp: unmatchedNames_def filter_empty_conv)


text \<open>Where the sizes count names, the test of line 255 agrees with its name.\<close>

lemma oneNodePerName_agrees:
  assumes "oneNodePerName E opts root col"
  shows "sizeTestAgrees E opts root col"
proof -
  have "isAllExportsFound (fst (normalizeExports E root col))
           (requestedNames E opts root col) col (snd (normalizeExports E root col))
        = (set (requestedNames E opts root col)
             \<subseteq> fst ` set (nameEntries (snd (normalizeExports E root col)) col))"
  proof (rule found_iff_matched)
    show "\<forall>e\<in>set (snd (normalizeExports E root col)).
            fst e \<in> set (requestedNames E opts root col)
            \<or> nameOrEmpty (fst (normalizeExports E root col)) (snd e)
              \<notin> set (map imported (importRecs col))"
      using assms by (simp add: oneNodePerName_def list_all_iff)
    show "distinct (map fst (filter (\<lambda>e. fst e \<in> set (requestedNames E opts root col))
                 (nameEntries (snd (normalizeExports E root col)) col)))"
      using assms by (simp add: oneNodePerName_def matchedEntries_def)
    show "distinct (map snd (filter (\<lambda>e. fst e \<in> set (requestedNames E opts root col))
                 (nameEntries (snd (normalizeExports E root col)) col)))"
      using assms by (simp add: oneNodePerName_def matchedEntries_def)
    show "distinct (requestedNames E opts root col)"
      by (rule requestedNames_distinct)
  qed
  then show ?thesis
    unfolding sizeTestAgrees_def using unmatched_iff [of E opts root col] by simp
qed








text \<open>
  The comparison of sizes of line 255 is not the test whether every requested name is matched.
  A module that exports one initializer as \<open>x\<close> and as \<open>y\<close> has one alive node for the request
  of both names: under the policy \<open>error\<close> the pass fails although every name is matched.
\<close>

lemma size_test_fails_all_matched:
  "unmatchedNames (plainExt [] [] [] []) (withPolicy PolicyError (request [''x'', ''y'']))
     oneStatement sharedInit = []
   \<and> shakerPlugin (plainExt [] [] [] []) (withPolicy PolicyError (request [''x'', ''y'']))
        oneStatement sharedInit
       = Inl (UnknownExports ''Unknown export(s) requested: x,y'')"
  by (simp add: unmatchedNames_def requestedNames_def nameEntries_def run_defs shake_defs
      withPolicy_def sharedInit_def)

text \<open>
  In a module where the node of the export \<open>b\<close> is named like an import, that node is alive
  without a request, so the request of \<open>a\<close> and of a name that the module lacks has two alive
  nodes for two names: the pass neither fails under the policy \<open>error\<close> nor keeps everything
  under the policy \<open>skip-shaking\<close>, and it deletes the export \<open>c\<close>.
\<close>

lemma size_test_passes_unmatched:
  "unmatchedNames (plainExt [] [] [] []) (request [''a'', ''missing'']) importNamedProgram
     importNamed = [''missing'']
   \<and> map_sum id deadExports
        (shakerPlugin (plainExt [] [] [] []) (withPolicy PolicyError (request [''a'', ''missing'']))
           importNamedProgram importNamed) = Inr [''c'']
   \<and> policyOf (request [''a'', ''missing'']) = SkipShaking
   \<and> map_sum id deadExports
        (shakerPlugin (plainExt [] [] [] []) (request [''a'', ''missing''])
           importNamedProgram importNamed) = Inr [''c'']
   \<and> map_sum id (removed \<circ> outProgram)
        (shakerPlugin (plainExt [] [] [] []) (request [''a'', ''missing''])
           importNamedProgram importNamed) = Inr [7]"
  by (simp add: unmatchedNames_def requestedNames_def nameEntries_def run_defs shake_defs
      withPolicy_def importNamed_def importNamedProgram_def elimLoop_continue elimPass_def elimStep_def outerReferences_def
      getBindingForExport_def isIdentifier_def deleteWith_def removePaths_def below_def)




section \<open>Shared nodes\<close>




































end
